theory Spec2Isabelle
  imports Complex_Main
begin

section \<open>The request governor of \<open>lucida_client.py\<close>\<close>

text \<open>
  The class \<open>RateLimiter\<close> keeps a bounded log of admission times, the time of the last
  admission and a counter of consecutive errors. Its method \<open>wait\<close> reads the wall clock with
  \<open>time.time()\<close> and suspends with \<open>time.sleep\<close>. The model makes both explicit: the clock
  is a number handed in by the caller and handed back, and every \<open>time.sleep(secs)\<close> moves
  it forward by \<open>secs\<close> plus a lag chosen by the environment (a sleep never returns early, it
  may return late). Python's floats are read as real numbers, its integers as \<open>int\<close>;
  where CPython converts a number to a machine type and raises \<open>OverflowError\<close> when it
  does not fit (a 64-bit build is assumed), the model raises it too. Console output is not
  modelled.
\<close>

datatype error = ValueError | TypeError | OverflowError

record RateLimiter =
  requests_per_minute :: int
  requests_per_hour :: int
  min_delay :: real
  request_times :: "real list"
  last_request_time :: real
  consecutive_errors :: int
  max_backoff :: real

subsection \<open>Construction\<close>

text \<open>
  \<open>__init__(self, requests_per_minute=30, requests_per_hour=500, min_delay=2.0)\<close>.
  A call binds each declared parameter to the value the caller gives or to its default;
  a keyword that the signature does not declare makes Python raise \<open>TypeError\<close> before the
  body runs. \<open>deque(maxlen=n)\<close> raises \<open>ValueError\<close> for a negative \<open>n\<close> and
  \<open>OverflowError\<close> for an \<open>n\<close> that does not fit a C \<open>ssize_t\<close>.
\<close>

record init_args =
  arg_requests_per_minute :: "int option"
  arg_requests_per_hour :: "int option"
  arg_min_delay :: "real option"
  other_keywords :: "(string \<times> real) list"

definition no_args :: init_args where
  "no_args = \<lparr>arg_requests_per_minute = None, arg_requests_per_hour = None,
     arg_min_delay = None, other_keywords = []\<rparr>"

definition or_default :: "'a option \<Rightarrow> 'a \<Rightarrow> 'a" where
  "or_default a d = (case a of None \<Rightarrow> d | Some v \<Rightarrow> v)"

definition RateLimiter_init :: "init_args \<Rightarrow> error + RateLimiter" where
  "RateLimiter_init args =
     (if other_keywords args \<noteq> [] then Inl TypeError
      else
        let rpm = or_default (arg_requests_per_minute args) 30;
            rph = or_default (arg_requests_per_hour args) 500;
            md = or_default (arg_min_delay args) 2.0
        in if rph < 0 then Inl ValueError
           else if 2 ^ 63 \<le> rph then Inl OverflowError
           else Inr \<lparr>requests_per_minute = rpm, requests_per_hour = rph, min_delay = md,
                  request_times = [], last_request_time = 0,
                  consecutive_errors = 0, max_backoff = 300\<rparr>)"

subsection \<open>The clock and the bounded log\<close>

text \<open>
  The world of one \<open>wait\<close> call: the current clock reading and the durations passed to
  \<open>time.sleep\<close> so far, oldest first.
\<close>

type_synonym world = "real \<times> real list"

text \<open>
  \<open>time.sleep(secs)\<close> first converts the duration to a signed 64-bit number of nanoseconds
  and raises \<open>OverflowError\<close> when it does not fit; then it raises \<open>ValueError\<close> for a
  negative duration.
\<close>

definition sleep :: "real \<Rightarrow> real \<Rightarrow> world \<Rightarrow> error + world" where
  "sleep secs lag w =
     (case w of (current_time, slept) \<Rightarrow>
        if secs * 10 ^ 9 < - (2 ^ 63) \<or> 2 ^ 63 \<le> secs * 10 ^ 9 then Inl OverflowError
        else if secs < 0 then Inl ValueError
        else Inr (current_time + secs + lag, slept @ [secs]))"

text \<open>\<open>deque.append\<close> on a deque with \<open>maxlen\<close>: the oldest entries fall out at the left.\<close>

definition deque_append :: "nat \<Rightarrow> 'a list \<Rightarrow> 'a \<Rightarrow> 'a list" where
  "deque_append maxlen xs x = (let ys = xs @ [x] in drop (length ys - maxlen) ys)"

text \<open>\<open>sum(1 for t in self.request_times if t > bound)\<close>\<close>

definition newer :: "real list \<Rightarrow> real \<Rightarrow> real list" where
  "newer ts bound = filter (\<lambda>t. t > bound) ts"

definition count_newer :: "real list \<Rightarrow> real \<Rightarrow> int" where
  "count_newer ts bound = int (length (newer ts bound))"

text \<open>\<open>min(iterable, default=d)\<close>\<close>

fun min_default :: "real list \<Rightarrow> real \<Rightarrow> real" where
  "min_default [] d = d"
| "min_default (x # xs) d = fold min xs x"

subsection \<open>\<open>wait\<close>\<close>

definition enforce_min_delay :: "RateLimiter \<Rightarrow> real \<Rightarrow> world \<Rightarrow> error + world" where
  "enforce_min_delay g lag w =
     (let current_time = fst w;
          time_since_last = current_time - last_request_time g
      in if time_since_last < min_delay g
         then sleep (min_delay g - time_since_last) lag w
         else Inr w)"

text \<open>
  The per-minute and the per-hour check are the same code over a window of 60 and of 3600
  seconds, with the limit \<open>requests_per_minute\<close> and \<open>requests_per_hour\<close>.
\<close>

definition window_check :: "real \<Rightarrow> int \<Rightarrow> RateLimiter \<Rightarrow> real \<Rightarrow> world \<Rightarrow> error + world" where
  "window_check horizon limit g lag w =
     (let current_time = fst w;
          ago = current_time - horizon;
          recent_requests = count_newer (request_times g) ago
      in if recent_requests \<ge> limit
         then (let oldest_in_window = min_default (newer (request_times g) ago) ago;
                   wait_time = horizon - (current_time - oldest_in_window) + 1
               in sleep wait_time lag w)
         else Inr w)"

fun and_then :: "error + 'a \<Rightarrow> ('a \<Rightarrow> error + 'b) \<Rightarrow> error + 'b" where
  "and_then (Inl e) f = Inl e"
| "and_then (Inr x) f = f x"

text \<open>
  \<open>min(self.min_delay * (2**self.consecutive_errors), self.max_backoff)\<close>. The power is an
  integer and \<open>min_delay\<close> a float: the product converts the integer to a float first, which
  raises \<open>OverflowError\<close> from \<open>2**1024\<close> on. The code evaluates this only under
  \<open>consecutive_errors > 0\<close>.
\<close>

definition backoff :: "RateLimiter \<Rightarrow> error + real" where
  "backoff g =
     (if 1024 \<le> consecutive_errors g then Inl OverflowError
      else Inr (min (min_delay g * 2 ^ nat (consecutive_errors g)) (max_backoff g)))"

definition backoff_check :: "RateLimiter \<Rightarrow> real \<Rightarrow> world \<Rightarrow> error + world" where
  "backoff_check g lag w =
     (if consecutive_errors g > 0 then and_then (backoff g) (\<lambda>b. sleep b lag w) else Inr w)"

text \<open>The lags of the four possible sleeps of one call, in program order.\<close>

type_synonym lags = "real \<times> real \<times> real \<times> real"

definition record_request :: "RateLimiter \<Rightarrow> real \<Rightarrow> RateLimiter" where
  "record_request g current_time =
     g\<lparr>request_times :=
          deque_append (nat (requests_per_hour g)) (request_times g) current_time,
       last_request_time := current_time\<rparr>"

text \<open>
  \<open>wait g t0 lags\<close> is the call \<open>self.wait()\<close> entered when the clock reads \<open>t0\<close>. It
  returns the limiter after the call, the clock reading at which the request was recorded
  and the sleeps it made, or the exception it raised.
\<close>

definition wait :: "RateLimiter \<Rightarrow> real \<Rightarrow> lags \<Rightarrow> error + (RateLimiter \<times> real \<times> real list)" where
  "wait g t0 ls =
     (case ls of (l1, l2, l3, l4) \<Rightarrow>
        and_then (enforce_min_delay g l1 (t0, [])) (\<lambda>w1.
        and_then (window_check 60 (requests_per_minute g) g l2 w1) (\<lambda>w2.
        and_then (window_check 3600 (requests_per_hour g) g l3 w2) (\<lambda>w3.
        and_then (backoff_check g l4 w3) (\<lambda>w4.
        Inr (record_request g (fst w4), fst w4, snd w4))))))"

subsection \<open>Reporting and statistics\<close>

definition record_success :: "RateLimiter \<Rightarrow> RateLimiter" where
  "record_success g = g\<lparr>consecutive_errors := 0\<rparr>"

definition record_error :: "RateLimiter \<Rightarrow> RateLimiter" where
  "record_error g = g\<lparr>consecutive_errors := consecutive_errors g + 1\<rparr>"

record stats =
  requests_last_minute :: int
  requests_last_hour :: int
  stat_consecutive_errors :: int
  total_requests :: int

text \<open>
  \<open>get_stats\<close> is a method on the limiter like the others, so it is modelled as returning
  the limiter it leaves behind next to the dictionary it builds.
\<close>

definition get_stats :: "RateLimiter \<Rightarrow> real \<Rightarrow> stats \<times> RateLimiter" where
  "get_stats g current_time =
     (let one_minute_ago = current_time - 60;
          one_hour_ago = current_time - 3600
      in (\<lparr>requests_last_minute = count_newer (request_times g) one_minute_ago,
           requests_last_hour = count_newer (request_times g) one_hour_ago,
           stat_consecutive_errors = consecutive_errors g,
           total_requests = int (length (request_times g))\<rparr>, g))"

subsection \<open>Sequences of calls on one limiter\<close>

text \<open>
  A caller's use of one limiter over time: time passes (\<open>Tick\<close>), and the four methods are
  called. The state is the limiter and the clock.
\<close>

datatype event = Tick real | Acquire lags | ReportSuccess | ReportError | Stats

fun step :: "event \<Rightarrow> RateLimiter \<times> real \<Rightarrow> error + RateLimiter \<times> real" where
  "step (Tick dt) (g, c) = Inr (g, c + dt)"
| "step (Acquire ls) (g, c) =
     and_then (wait g c ls) (\<lambda>r. Inr (fst r, fst (snd r)))"
| "step ReportSuccess (g, c) = Inr (record_success g, c)"
| "step ReportError (g, c) = Inr (record_error g, c)"
| "step Stats (g, c) = Inr (snd (get_stats g c), c)"

fun run :: "event list \<Rightarrow> RateLimiter \<times> real \<Rightarrow> error + RateLimiter \<times> real" where
  "run [] s = Inr s"
| "run (e # es) s = and_then (step e s) (run es)"

text \<open>The clock never runs backwards and no sleep returns early.\<close>

fun lags_ok :: "lags \<Rightarrow> bool" where
  "lags_ok (l1, l2, l3, l4) = (0 \<le> l1 \<and> 0 \<le> l2 \<and> 0 \<le> l3 \<and> 0 \<le> l4)"

fun event_ok :: "event \<Rightarrow> bool" where
  "event_ok (Tick dt) = (0 \<le> dt)"
| "event_ok (Acquire ls) = lags_ok ls"
| "event_ok _ = True"


fun is_acquire :: "event \<Rightarrow> bool" where
  "is_acquire (Acquire ls) = True"
| "is_acquire _ = False"

fun is_stats :: "event \<Rightarrow> bool" where
  "is_stats Stats = True"
| "is_stats _ = False"

text \<open>
  The bookkeeping that every call preserves: the minute window holds at most
  \<open>requests_per_minute\<close> entries at the current clock reading, the log holds at most
  \<open>requests_per_hour\<close> entries, and the error counter is not negative.
\<close>

definition log_bounded :: "RateLimiter \<Rightarrow> bool" where
  "log_bounded g =
     (int (length (request_times g)) \<le> requests_per_hour g \<and> 0 \<le> consecutive_errors g)"

definition within_limits :: "RateLimiter \<times> real \<Rightarrow> bool" where
  "within_limits s =
     (case s of (g, c) \<Rightarrow>
        count_newer (request_times g) (c - 60) \<le> requests_per_minute g \<and> log_bounded g)"

definition same_config :: "RateLimiter \<Rightarrow> RateLimiter \<Rightarrow> bool" where
  "same_config g g' =
     (requests_per_minute g' = requests_per_minute g \<and>
      requests_per_hour g' = requests_per_hour g \<and>
      min_delay g' = min_delay g \<and>
      max_backoff g' = max_backoff g)"

section \<open>The client of \<open>lucida_client.py\<close>\<close>

text \<open>
  \<open>LucidaClient\<close> owns one \<open>RateLimiter\<close>. The HTTP session it also creates is used by no
  method and is left out. The browser, the file system and the environment are external:
  each awaited call either raises an exception (with its message) or returns, and a script
  says which. What a method does to the outside is returned as a list of actions.
\<close>

record LucidaClient =
  base_url :: string
  timeout :: int
  rate_limiter :: RateLimiter

text \<open>
  \<open>LucidaClient.__init__(base_url="https://lucida.to", timeout=30, requests_per_minute=30,
  requests_per_hour=500)\<close> builds its limiter with \<open>min_delay=2.0\<close>.
\<close>

definition LucidaClient_init ::
  "string option \<Rightarrow> int option \<Rightarrow> int option \<Rightarrow> int option \<Rightarrow> error + LucidaClient" where
  "LucidaClient_init url tmo rpm rph =
     and_then
       (RateLimiter_init \<lparr>arg_requests_per_minute = Some (or_default rpm 30),
          arg_requests_per_hour = Some (or_default rph 500),
          arg_min_delay = Some 2.0, other_keywords = []\<rparr>)
       (\<lambda>g. Inr \<lparr>base_url = or_default url ''https://lucida.to'',
                 timeout = or_default tmo 30, rate_limiter = g\<rparr>)"

text \<open>\<open>_rate_limit\<close>: the one place of the client that calls \<open>wait\<close>.\<close>

definition rate_limit ::
  "LucidaClient \<Rightarrow> real \<Rightarrow> lags \<Rightarrow> error + (LucidaClient \<times> real \<times> real list)" where
  "rate_limit c t0 ls =
     and_then (wait (rate_limiter c) t0 ls)
       (\<lambda>r. Inr (c\<lparr>rate_limiter := fst r\<rparr>, snd r))"

datatype 'a answer = Raised string | Returned 'a

datatype action =
    Pause real
  | NewPage
  | ClosePage
  | Makedirs string
  | Goto string
  | Poll nat
  | WaitForSelector
  | ClickDownload
  | SaveAs string
  | SearchCall string
  | DownloadCall string string

datatype poll = ButtonVisible | CaptchaSeen "unit answer" | NothingYet | PollRaised string

text \<open>The answers of the page and of the file system during one \<open>download_track\<close> call.\<close>

record page_script =
  makedirs_answer :: "unit answer"
  goto_answer :: "unit answer"
  poll_answer :: "nat \<Rightarrow> poll"
  selector_answer :: "unit answer"
  click_answer :: "string answer"
  makedirs_final_answer :: "unit answer"
  save_answer :: "unit answer"
  exists_answer :: bool
  size_answer :: nat

text \<open>\<open>os.getenv("DOWNLOAD_DIR", ...)\<close> and the functions of \<open>os.path\<close>.\<close>

record os_env =
  getenv_download_dir :: "string option"
  abspath :: "string \<Rightarrow> string"
  path_join :: "string \<Rightarrow> string \<Rightarrow> string"
  dirname :: "string \<Rightarrow> string"

datatype download_result = Success string nat | Failure string

fun success :: "download_result \<Rightarrow> bool" where
  "success (Success filepath sz) = True"
| "success (Failure e) = False"

definition default_download_dir :: string where
  "default_download_dir = ''C:'' @ [CHR 0x5C] @ ''Musics'' @ [CHR 0x5C] @ ''FLAC''"

text \<open>Actions done before a step are kept in front of what the step returns.\<close>

definition after :: "action list \<Rightarrow> 'a \<times> action list \<Rightarrow> 'a \<times> action list" where
  "after acts r = (fst r, acts @ snd r)"

text \<open>
  \<open>for i in range(150)\<close>: the loop that waits for the download button. \<open>Inr found\<close> is the
  value of \<open>button_found\<close> when the loop ends, \<open>Inl e\<close> an exception raised inside it.
\<close>

fun poll_loop :: "(nat \<Rightarrow> poll) \<Rightarrow> nat list \<Rightarrow> (string + bool) \<times> action list" where
  "poll_loop ans [] = (Inr False, [])"
| "poll_loop ans (i # rest) =
     (case ans i of
        ButtonVisible \<Rightarrow> (Inr True, [Poll i])
      | CaptchaSeen a \<Rightarrow>
          (case a of
             Raised e \<Rightarrow> (Inl e, [Poll i, WaitForSelector])
           | Returned u \<Rightarrow> (Inr True, [Poll i, WaitForSelector]))
      | PollRaised e \<Rightarrow> (Inl e, [Poll i])
      | NothingYet \<Rightarrow> after [Poll i, Pause 0.1] (poll_loop ans rest))"

text \<open>Python's truth value of a string that may be \<open>None\<close>.\<close>

fun truthy :: "string option \<Rightarrow> bool" where
  "truthy None = False"
| "truthy (Some s) = (s \<noteq> [])"

text \<open>
  The nested \<open>_perform_download_async\<close>: every exception ends in
  \<open>{"success": False, "error": str(e)}\<close>.
\<close>

definition save_download ::
  "os_env \<Rightarrow> string \<Rightarrow> string option \<Rightarrow> page_script \<Rightarrow> string \<Rightarrow> download_result \<times> action list" where
  "save_download os download_dir output_path p suggested_filename =
     (let final_path =
            (if truthy output_path then abspath os (the output_path)
             else abspath os (path_join os download_dir suggested_filename))
      in case makedirs_final_answer p of
           Raised e \<Rightarrow> (Failure e, [Makedirs (dirname os final_path)])
         | Returned u \<Rightarrow>
             after [Makedirs (dirname os final_path), SaveAs final_path]
               (case save_answer p of
                  Raised e \<Rightarrow> (Failure e, [])
                | Returned u \<Rightarrow>
                    if exists_answer p then (Success final_path (size_answer p), [])
                    else (Failure (''File saved but not found at: '' @ final_path), [])))"

definition click_and_save ::
  "os_env \<Rightarrow> string \<Rightarrow> string option \<Rightarrow> page_script \<Rightarrow> download_result \<times> action list" where
  "click_and_save os download_dir output_path p =
     (case selector_answer p of
        Raised e \<Rightarrow> (Failure e, [WaitForSelector])
      | Returned u \<Rightarrow>
          after [WaitForSelector, Pause 0.3, ClickDownload]
            (case click_answer p of
               Raised e \<Rightarrow> (Failure e, [])
             | Returned suggested_filename \<Rightarrow>
                 save_download os download_dir output_path p suggested_filename))"

definition perform_download ::
  "LucidaClient \<Rightarrow> os_env \<Rightarrow> string \<Rightarrow> string option \<Rightarrow> page_script
     \<Rightarrow> download_result \<times> action list" where
  "perform_download c os url output_path p =
     (let download_dir = or_default (getenv_download_dir os) default_download_dir
      in case makedirs_answer p of
           Raised e \<Rightarrow> (Failure e, [Makedirs download_dir])
         | Returned u \<Rightarrow>
             after [Makedirs download_dir, Goto (base_url c @ ''?url='' @ url)]
               (case goto_answer p of
                  Raised e \<Rightarrow> (Failure e, [])
                | Returned u \<Rightarrow>
                    (case poll_loop (poll_answer p) [0..<150] of
                       (Inl e, acts) \<Rightarrow> (Failure e, acts)
                     | (Inr button_found, acts) \<Rightarrow>
                         if \<not> button_found
                         then (Failure ''Download button never appeared.'', acts)
                         else after acts (click_and_save os download_dir output_path p))))"

text \<open>
  \<open>download_track(self, url, output_path, page)\<close>. With a page it runs the download on
  it. Without one it launches a browser of its own first; an exception of the launch or of
  closing the browser is not caught and leaves the method (\<open>Inl\<close>). The client is returned
  as the method leaves it.
\<close>

record own_browser =
  launch_answer :: "page_script answer"
  close_answer :: "unit answer"

datatype page_arg = GivenPage page_script | NoPage own_browser

definition download_track ::
  "LucidaClient \<Rightarrow> os_env \<Rightarrow> string \<Rightarrow> string option \<Rightarrow> page_arg
     \<Rightarrow> string + (download_result \<times> action list \<times> LucidaClient)" where
  "download_track c os url output_path page =
     (case page of
        GivenPage p \<Rightarrow>
          (let r = perform_download c os url output_path p in Inr (fst r, snd r, c))
      | NoPage browser \<Rightarrow>
          (case launch_answer browser of
             Raised e \<Rightarrow> Inl e
           | Returned p \<Rightarrow>
               (let r = perform_download c os url output_path p
                in case close_answer browser of
                     Raised e \<Rightarrow> Inl e
                   | Returned u \<Rightarrow> Inr (fst r, NewPage # snd r, c))))"

section \<open>The worker of \<open>lucida_sync.py\<close>\<close>

text \<open>
  \<open>SpotifyToFlac\<close> holds the client and the download directory (the Spotify credentials
  play no part in a worker). A track is the dictionary built by \<open>get_playlist_tracks\<close>.
\<close>

record SpotifyToFlac =
  client :: LucidaClient
  download_dir :: string

record track_info =
  query :: string
  name :: string
  artist :: string

text \<open>
  \<open>_sanitize_filename\<close>: \<open>re.sub(r'[<>:"/\\|?*]', '', name).strip()\<close>. Characters are bytes
  here and \<open>strip\<close> removes the ASCII white space.
\<close>

definition forbidden_chars :: "char list" where
  "forbidden_chars = ''<>:/|?*'' @ [CHR 0x22, CHR 0x5C]"

definition is_space :: "char \<Rightarrow> bool" where
  "is_space ch = (ch \<in> set [CHR 0x20, CHR 0x09, CHR 0x0A, CHR 0x0B, CHR 0x0C, CHR 0x0D,
                             CHR 0x1C, CHR 0x1D, CHR 0x1E, CHR 0x1F])"

definition strip :: "string \<Rightarrow> string" where
  "strip s = rev (dropWhile is_space (rev (dropWhile is_space s)))"

definition sanitize_filename :: "string \<Rightarrow> string" where
  "sanitize_filename nm = strip (filter (\<lambda>ch. ch \<notin> set forbidden_chars) nm)"

text \<open>\<open>sub in s\<close> on strings.\<close>

fun contains :: "string \<Rightarrow> string \<Rightarrow> bool" where
  "contains sub [] = (sub = [])"
| "contains sub (ch # rest) = (take (length sub) (ch # rest) = sub \<or> contains sub rest)"

text \<open>
  \<open>get_direct_amazon_link_async\<close>: an exception of the navigation or of reading the links
  gives \<open>None\<close>; an exception while waiting for the result list is ignored.
\<close>

record search_script =
  search_goto_answer :: "unit answer"
  hrefs_answer :: "string list answer"

definition get_direct_amazon_link_async :: "search_script \<Rightarrow> string option" where
  "get_direct_amazon_link_async p =
     (case search_goto_answer p of
        Raised e \<Rightarrow> None
      | Returned u \<Rightarrow>
          (case hrefs_answer p of
             Raised e \<Rightarrow> None
           | Returned hrefs \<Rightarrow>
               (case find (contains ''trackAsin='') hrefs of
                  Some href \<Rightarrow> Some href
                | None \<Rightarrow> find (contains ''/tracks/'') hrefs)))"

text \<open>What the browser answers to one worker, per attempt.\<close>

record worker_script =
  new_page_answer :: "unit answer"
  search_answer :: "nat \<Rightarrow> search_script"
  download_answer :: "nat \<Rightarrow> page_script"
  blank_answer :: "nat \<Rightarrow> unit answer"

datatype outcome = Completed | Skipped | PermanentFailure | WorkerError

text \<open>\<open>for attempt in range(3)\<close>: the search, with the value of \<open>amazon_url\<close> so far.\<close>

fun search_loop ::
  "(nat \<Rightarrow> search_script) \<Rightarrow> string \<Rightarrow> string option \<Rightarrow> nat list
     \<Rightarrow> string option \<times> action list" where
  "search_loop ans q amazon_url [] = (amazon_url, [])"
| "search_loop ans q amazon_url (attempt # rest) =
     (let found = get_direct_amazon_link_async (ans attempt)
      in if truthy found then (found, [SearchCall q])
         else after [SearchCall q, Pause 2] (search_loop ans q found rest))"

text \<open>
  \<open>for attempt in range(2)\<close>: the download. An exception (of \<open>download_track\<close> or of the
  navigation to \<open>about:blank\<close>) leaves the loop for the handler of the worker.
\<close>

fun download_loop ::
  "LucidaClient \<Rightarrow> os_env \<Rightarrow> worker_script \<Rightarrow> string \<Rightarrow> string \<Rightarrow> nat list
     \<Rightarrow> outcome \<times> action list \<times> LucidaClient" where
  "download_loop c os ws url path [] = (PermanentFailure, [], c)"
| "download_loop c os ws url path (attempt # rest) =
     (case download_track c os url (Some path) (GivenPage (download_answer ws attempt)) of
        Inl e \<Rightarrow> (WorkerError, [DownloadCall url path], c)
      | Inr (result, acts, c') \<Rightarrow>
          if success result then (Completed, DownloadCall url path # acts, c')
          else
            (case blank_answer ws attempt of
               Raised e \<Rightarrow>
                 (WorkerError, DownloadCall url path # acts @ [Goto ''about:blank''], c')
             | Returned u \<Rightarrow>
                 (case download_loop c' os ws url path rest of
                    (out, acts', c'') \<Rightarrow>
                      (out,
                       DownloadCall url path # acts @ [Goto ''about:blank'', Pause 2] @ acts',
                       c''))))"

text \<open>
  \<open>process_track_async(self, context, track_info, semaphore, index)\<close>. The semaphore only
  delays the worker and is not modelled. Closing the page never fails the worker.
\<close>

text \<open>The local \<open>output_path\<close> of the worker: the sanitized file name in the download directory.\<close>

definition output_path_of :: "SpotifyToFlac \<Rightarrow> os_env \<Rightarrow> track_info \<Rightarrow> string" where
  "output_path_of app os track =
     (let safe_name = sanitize_filename (artist track @ '' - '' @ name track @ ''.flac'')
      in path_join os (download_dir app) safe_name)"

definition process_track_async ::
  "SpotifyToFlac \<Rightarrow> os_env \<Rightarrow> worker_script \<Rightarrow> track_info \<Rightarrow> nat
     \<Rightarrow> outcome \<times> action list \<times> SpotifyToFlac" where
  "process_track_async app os ws track index =
     (case new_page_answer ws of
        Raised e \<Rightarrow> (WorkerError, [Pause (real index * 5), NewPage], app)
      | Returned u \<Rightarrow>
          (case search_loop (search_answer ws) (query track) None [0..<3] of
             (amazon_url, sacts) \<Rightarrow>
               if \<not> truthy amazon_url
               then (Skipped, [Pause (real index * 5), NewPage] @ sacts @ [ClosePage], app)
               else
                 (let output_path = output_path_of app os track
                  in case download_loop (client app) os ws (the amazon_url) output_path [0..<2] of
                       (out, dacts, c') \<Rightarrow>
                         (out,
                          [Pause (real index * 5), NewPage] @ sacts @ dacts @ [ClosePage],
                          app\<lparr>client := c'\<rparr>))))"

text \<open>
  \<open>sync_playlist_async\<close> starts one worker per track, numbered from 0, and gathers them.
  The workers share the client and nothing else; the model runs them one after another,
  handing the client on.
\<close>

fun gather_workers ::
  "SpotifyToFlac \<Rightarrow> os_env \<Rightarrow> (nat \<Rightarrow> worker_script) \<Rightarrow> nat \<Rightarrow> track_info list
     \<Rightarrow> (outcome \<times> action list) list \<times> SpotifyToFlac" where
  "gather_workers app os ws i [] = ([], app)"
| "gather_workers app os ws i (track # tracks) =
     (case process_track_async app os (ws i) track i of
        (out, acts, app') \<Rightarrow>
          (case gather_workers app' os ws (Suc i) tracks of
             (rs, app'') \<Rightarrow> ((out, acts) # rs, app'')))"

fun is_search :: "action \<Rightarrow> bool" where
  "is_search (SearchCall q) = True"
| "is_search _ = False"

fun is_download :: "action \<Rightarrow> bool" where
  "is_download (DownloadCall url path) = True"
| "is_download _ = False"


section \<open>Concrete inputs for the examples\<close>

text \<open>
  A limiter and a client as the default constructors build them, a file system whose
  paths are plain strings, the track link of \<open>test_lucida_download.py\<close>, a page on
  which the download works at once and one whose navigation times out.
\<close>

definition default_limiter :: RateLimiter where
  "default_limiter =
     \<lparr>requests_per_minute = 30, requests_per_hour = 500, min_delay = 2,
      request_times = [], last_request_time = 0, consecutive_errors = 0,
      max_backoff = 300\<rparr>"

definition default_client :: LucidaClient where
  "default_client =
     \<lparr>base_url = ''https://lucida.to'', timeout = 30, rate_limiter = default_limiter\<rparr>"

definition plain_os :: os_env where
  "plain_os =
     \<lparr>getenv_download_dir = Some ''flac'', abspath = (\<lambda>p. p),
      path_join = (\<lambda>d f. d @ ''/'' @ f), dirname = (\<lambda>p. ''flac'')\<rparr>"

definition track_url :: string where
  "track_url = ''https://music.amazon.com/albums/B0DJ1TCQNJ?trackAsin=B0DJ1RTS6F''"

definition working_page :: page_script where
  "working_page =
     \<lparr>makedirs_answer = Returned (), goto_answer = Returned (),
      poll_answer = (\<lambda>i. ButtonVisible), selector_answer = Returned (),
      click_answer = Returned ''track.flac'', makedirs_final_answer = Returned (),
      save_answer = Returned (), exists_answer = True, size_answer = 1000\<rparr>"

definition stuck_page :: page_script where
  "stuck_page = working_page\<lparr>goto_answer := Raised ''Timeout 90000ms exceeded''\<rparr>"

definition found_search :: search_script where
  "found_search =
     \<lparr>search_goto_answer = Returned (), hrefs_answer = Returned [''about:blank'', track_url]\<rparr>"

definition failed_search :: search_script where
  "failed_search =
     \<lparr>search_goto_answer = Raised ''Timeout 45000ms exceeded'', hrefs_answer = Returned []\<rparr>"

definition example_app :: SpotifyToFlac where
  "example_app = \<lparr>client = default_client, download_dir = ''flac''\<rparr>"

definition example_track :: track_info where
  "example_track =
     \<lparr>query = ''Jake Cornell Back To You'', name = ''Back To You'', artist = ''Jake Cornell''\<rparr>"

section \<open>Properties of the limiter\<close>

lemma and_then_Inr_iff: "and_then m f = Inr y \<longleftrightarrow> (\<exists>x. m = Inr x \<and> f x = Inr y)"
  by (cases m) auto

lemma sleep_Inr:
  "sleep secs lag w = Inr w' \<longleftrightarrow>
     0 \<le> secs \<and> secs * 10 ^ 9 < 2 ^ 63 \<and> w' = (fst w + secs + lag, snd w @ [secs])"
  by (cases w) (auto simp: sleep_def)

lemma sleep_short:
  "0 \<le> secs \<Longrightarrow> secs \<le> 3601 \<Longrightarrow>
     sleep secs lag w = Inr (fst w + secs + lag, snd w @ [secs])"
  by (simp add: sleep_Inr)

lemma min_default_mem: "xs \<noteq> [] \<Longrightarrow> min_default xs d \<in> set xs"
proof (cases xs)
  case Nil
  then show "xs \<noteq> [] \<Longrightarrow> ?thesis" by simp
next
  case (Cons x ys)
  have "fold min ys x = Min (set (x # ys))" by (simp only: Min.set_eq_fold)
  moreover have "Min (set (x # ys)) \<in> set (x # ys)" by (rule Min_in) simp_all
  ultimately show ?thesis using Cons by simp
qed

lemma newer_gt: "t \<in> set (newer ts b) \<Longrightarrow> b < t"
  by (simp add: newer_def)

lemma oldest_ge: "b \<le> min_default (newer ts b) b"
proof (cases "newer ts b = []")
  case True
  then show ?thesis by simp
next
  case False
  from min_default_mem [OF this] have "b < min_default (newer ts b) b" by (rule newer_gt)
  then show ?thesis by simp
qed

lemma count_newer_mono: "b \<le> b' \<Longrightarrow> count_newer ts b' \<le> count_newer ts b"
proof -
  assume le: "b \<le> b'"
  have "newer ts b' = filter (\<lambda>t. t > b') (newer ts b)"
    using le by (auto simp: newer_def intro: filter_cong)
  then show ?thesis by (simp add: count_newer_def)
qed

lemma count_newer_drop_oldest:
  assumes "newer ts b \<noteq> []" and "min_default (newer ts b) b \<le> b'"
  shows "count_newer ts b' < count_newer ts b"
proof -
  let ?o = "min_default (newer ts b) b"
  have mem: "?o \<in> set (newer ts b)" using assms(1) by (rule min_default_mem)
  then have "b < ?o" by (rule newer_gt)
  then have le: "b \<le> b'" using assms(2) by simp
  have eq: "newer ts b' = filter (\<lambda>t. t > b') (newer ts b)"
    using le by (auto simp: newer_def intro: filter_cong)
  have "\<not> ?o > b'" using assms(2) by simp
  with mem have "length (filter (\<lambda>t. t > b') (newer ts b)) < length (newer ts b)"
    by (rule length_filter_less)
  then show ?thesis by (simp add: count_newer_def eq)
qed

lemma oldest_le:
  assumes "\<forall>x \<in> set ts. x \<le> t" and "b \<le> t"
  shows "min_default (newer ts b) b \<le> t"
proof (cases "newer ts b = []")
  case True
  then show ?thesis using assms(2) by simp
next
  case False
  from min_default_mem [OF this] have "min_default (newer ts b) b \<in> set ts"
    by (simp add: newer_def)
  with assms(1) show ?thesis by blast
qed

text \<open>
  A window check only sleeps: with no log entry ahead of the clock it asks for between 1
  and \<open>horizon + 1\<close> seconds, which \<open>time.sleep\<close> accepts.
\<close>

lemma window_check_total:
  assumes past: "\<forall>x \<in> set (request_times g). x \<le> fst w"
    and h: "0 \<le> h" "h \<le> 3600"
  shows "\<exists>w'. window_check h n g lag w = Inr w'"
proof -
  let ?o = "min_default (newer (request_times g) (fst w - h)) (fst w - h)"
  have "fst w - h \<le> ?o" by (rule oldest_ge)
  moreover have "?o \<le> fst w" using past h(1) by (intro oldest_le) simp_all
  ultimately have "0 \<le> h - (fst w - ?o) + 1" "h - (fst w - ?o) + 1 \<le> 3601"
    using h(2) by simp_all
  then show ?thesis by (simp add: window_check_def Let_def sleep_short)
qed

lemma window_check_clock:
  assumes "window_check h n g lag w = Inr w'" and "0 \<le> lag"
  shows "fst w \<le> fst w'"
proof -
  have "0 \<le> h - (fst w - min_default (newer (request_times g) (fst w - h)) (fst w - h)) + 1"
    using oldest_ge [of "fst w - h" "request_times g"] by simp
  then show ?thesis using assms
    by (auto simp: window_check_def Let_def sleep_Inr split: if_splits)
qed

lemma window_check_room:
  assumes "window_check h n g lag w = Inr w'" and "0 \<le> lag" and "1 \<le> n"
    and "count_newer (request_times g) (fst w - h) \<le> n"
  shows "count_newer (request_times g) (fst w' - h) < n"
proof (cases "n \<le> count_newer (request_times g) (fst w - h)")
  case False
  then show ?thesis using assms(1) by (simp add: window_check_def Let_def)
next
  case True
  let ?ts = "request_times g" and ?b = "fst w - h"
  let ?o = "min_default (newer ?ts ?b) ?b"
  from True assms(3) have ne: "newer ?ts ?b \<noteq> []" by (auto simp: count_newer_def)
  from True assms(1) have "fst w' = fst w + (h - (fst w - ?o) + 1) + lag"
    by (auto simp: window_check_def Let_def sleep_Inr)
  then have "?o \<le> fst w' - h" using assms(2) by simp
  with ne have "count_newer ?ts (fst w' - h) < count_newer ?ts ?b"
    by (rule count_newer_drop_oldest)
  then show ?thesis using assms(4) by simp
qed


lemma enforce_min_delay_Inr:
  assumes "enforce_min_delay g lag w = Inr w'"
  shows "w' = (if fst w - last_request_time g < min_delay g
               then (last_request_time g + min_delay g + lag,
                     snd w @ [min_delay g - (fst w - last_request_time g)])
               else w)"
  using assms by (auto simp: enforce_min_delay_def Let_def sleep_Inr split: if_splits)

lemma enforce_min_delay_clock:
  assumes "enforce_min_delay g lag w = Inr w'" and "0 \<le> lag"
  shows "fst w \<le> fst w'" and "last_request_time g + min_delay g \<le> fst w'"
  using enforce_min_delay_Inr [OF assms(1)] assms(2) by (auto split: if_splits)

lemma backoff_check_clock:
  assumes "backoff_check g lag w = Inr w'" and "0 \<le> lag"
  shows "fst w \<le> fst w'"
  using assms by (auto simp: backoff_check_def and_then_Inr_iff sleep_Inr split: if_splits)

lemma wait_Inr_iff:
  "wait g t0 (l1, l2, l3, l4) = Inr r \<longleftrightarrow>
     (\<exists>w1 w2 w3 w4.
        enforce_min_delay g l1 (t0, []) = Inr w1 \<and>
        window_check 60 (requests_per_minute g) g l2 w1 = Inr w2 \<and>
        window_check 3600 (requests_per_hour g) g l3 w2 = Inr w3 \<and>
        backoff_check g l4 w3 = Inr w4 \<and>
        r = (record_request g (fst w4), fst w4, snd w4))"
  by (auto simp: wait_def and_then_Inr_iff)

lemma length_filter_drop: "length (filter P (drop k xs)) \<le> length (filter P xs)"
proof -
  have "length (filter P xs) = length (filter P (take k xs)) + length (filter P (drop k xs))"
    by (metis append_take_drop_id filter_append length_append)
  then show ?thesis by simp
qed

lemma count_newer_append:
  "count_newer (deque_append m ts t) b \<le> count_newer ts b + 1"
proof -
  let ?P = "\<lambda>t. t > b"
  have "length (filter ?P (deque_append m ts t)) \<le> length (filter ?P (ts @ [t]))"
    unfolding deque_append_def Let_def by (rule length_filter_drop)
  also have "\<dots> \<le> length (filter ?P ts) + 1" by simp
  finally show ?thesis by (simp add: count_newer_def newer_def)
qed

lemma length_deque_append: "length (deque_append m ts t) \<le> max m (length ts)"
  by (auto simp: deque_append_def Let_def)

lemma count_newer_le_length: "count_newer ts b \<le> int (length ts)"
  by (simp add: count_newer_def newer_def)

lemma count_newer_nonneg: "0 \<le> count_newer ts b"
  by (simp add: count_newer_def)

text \<open>What one call of wait guarantees about the minute window.\<close>

lemma wait_minute_window:
  assumes w: "wait g t0 ls = Inr (g', t', sl)" and ok: "lags_ok ls"
    and rpm: "1 \<le> requests_per_minute g"
    and before: "count_newer (request_times g) (t0 - 60) \<le> requests_per_minute g"
  shows "count_newer (request_times g') (t' - 60) \<le> requests_per_minute g"
proof -
  obtain l1 l2 l3 l4 where ls: "ls = (l1, l2, l3, l4)" by (cases ls) auto
  from w obtain w1 w2 w3 w4 where
    1: "enforce_min_delay g l1 (t0, []) = Inr w1" and
    2: "window_check 60 (requests_per_minute g) g l2 w1 = Inr w2" and
    3: "window_check 3600 (requests_per_hour g) g l3 w2 = Inr w3" and
    4: "backoff_check g l4 w3 = Inr w4" and
    r: "g' = record_request g (fst w4)" "t' = fst w4"
    unfolding ls wait_Inr_iff by auto
  from ok have l: "0 \<le> l1" "0 \<le> l2" "0 \<le> l3" "0 \<le> l4" by (simp_all add: ls)
  have "t0 \<le> fst w1" using enforce_min_delay_clock(1) [OF 1 l(1)] by simp
  then have "count_newer (request_times g) (fst w1 - 60) \<le> requests_per_minute g"
    using count_newer_mono [of "t0 - 60" "fst w1 - 60" "request_times g"] before by simp
  with 2 l(2) rpm have room: "count_newer (request_times g) (fst w2 - 60) < requests_per_minute g"
    by (rule window_check_room)
  have "fst w2 \<le> fst w3" using 3 l(3) by (rule window_check_clock)
  also have "fst w3 \<le> fst w4" using 4 l(4) by (rule backoff_check_clock)
  finally have "count_newer (request_times g) (fst w4 - 60) < requests_per_minute g"
    using count_newer_mono [of "fst w2 - 60" "fst w4 - 60" "request_times g"] room by simp
  moreover have "count_newer (request_times g') (t' - 60)
      \<le> count_newer (request_times g) (fst w4 - 60) + 1"
    by (simp add: r record_request_def count_newer_append)
  ultimately show ?thesis by simp
qed

lemma wait_clock:
  assumes w: "wait g t0 ls = Inr (g', t', sl)" and ok: "lags_ok ls"
  shows "t0 \<le> t'" and "last_request_time g + min_delay g \<le> t'"
proof -
  obtain l1 l2 l3 l4 where ls: "ls = (l1, l2, l3, l4)" by (cases ls) auto
  from w obtain w1 w2 w3 w4 where
    1: "enforce_min_delay g l1 (t0, []) = Inr w1" and
    2: "window_check 60 (requests_per_minute g) g l2 w1 = Inr w2" and
    3: "window_check 3600 (requests_per_hour g) g l3 w2 = Inr w3" and
    4: "backoff_check g l4 w3 = Inr w4" and
    r: "g' = record_request g (fst w4)" "t' = fst w4"
    unfolding ls wait_Inr_iff by auto
  from ok have l: "0 \<le> l1" "0 \<le> l2" "0 \<le> l3" "0 \<le> l4" by (simp_all add: ls)
  have a: "t0 \<le> fst w1" "last_request_time g + min_delay g \<le> fst w1"
    using enforce_min_delay_clock [OF 1 l(1)] by simp_all
  have "fst w1 \<le> fst w2" using 2 l(2) by (rule window_check_clock)
  also have "fst w2 \<le> fst w3" using 3 l(3) by (rule window_check_clock)
  also have "fst w3 \<le> fst w4" using 4 l(4) by (rule backoff_check_clock)
  finally have "fst w1 \<le> t'" by (simp add: r)
  with a show "t0 \<le> t'" and "last_request_time g + min_delay g \<le> t'" by simp_all
qed

lemma wait_frame:
  assumes "wait g t0 ls = Inr (g', t', sl)"
  shows "requests_per_minute g' = requests_per_minute g"
    and "requests_per_hour g' = requests_per_hour g"
    and "min_delay g' = min_delay g"
    and "max_backoff g' = max_backoff g"
    and "consecutive_errors g' = consecutive_errors g"
    and "last_request_time g' = t'"
    and "request_times g' = deque_append (nat (requests_per_hour g)) (request_times g) t'"
  using assms by (cases ls; auto simp: wait_Inr_iff record_request_def)+


lemma step_same_config: "step e (g, c) = Inr (g', c') \<Longrightarrow> same_config g g'"
proof (cases e)
  case (Acquire ls)
  assume "step e (g, c) = Inr (g', c')"
  then obtain sl where "wait g c ls = Inr (g', c', sl)"
    by (auto simp: Acquire and_then_Inr_iff)
  from wait_frame(1-4) [OF this] show ?thesis by (simp add: same_config_def)
qed (auto simp: same_config_def record_success_def record_error_def get_stats_def Let_def)

lemma step_within_limits:
  assumes s: "step e (g, c) = Inr (g', c')" and ok: "event_ok e"
    and rpm: "1 \<le> requests_per_minute g" and inv: "within_limits (g, c)"
  shows "within_limits (g', c')"
proof (cases e)
  case (Tick dt)
  with s ok have "g' = g" "c \<le> c'" by auto
  then show ?thesis
    using inv count_newer_mono [of "c - 60" "c' - 60" "request_times g"]
    by (simp add: within_limits_def)
next
  case (Acquire ls)
  with s obtain sl where w: "wait g c ls = Inr (g', c', sl)"
    by (auto simp: and_then_Inr_iff)
  from ok Acquire have l: "lags_ok ls" by simp
  from inv have "count_newer (request_times g) (c - 60) \<le> requests_per_minute g"
    by (simp add: within_limits_def)
  with w l rpm have "count_newer (request_times g') (c' - 60) \<le> requests_per_minute g"
    by (rule wait_minute_window)
  moreover have "int (length (request_times g')) \<le> requests_per_hour g"
  proof -
    from inv have le: "int (length (request_times g)) \<le> requests_per_hour g"
      by (simp add: within_limits_def log_bounded_def)
    then have "length (request_times g) \<le> nat (requests_per_hour g)" by linarith
    with length_deque_append [of "nat (requests_per_hour g)" "request_times g" c']
    have "length (deque_append (nat (requests_per_hour g)) (request_times g) c')
        \<le> nat (requests_per_hour g)" by simp
    then show ?thesis using le by (simp add: wait_frame(7) [OF w])
  qed
  ultimately show ?thesis using inv
    by (simp add: within_limits_def log_bounded_def wait_frame(1,2,5) [OF w])
qed (use s inv in \<open>auto simp: within_limits_def log_bounded_def record_success_def
      record_error_def get_stats_def Let_def\<close>)

lemma run_within_limits:
  assumes "run evs (g, c) = Inr (g', c')" and "list_all event_ok evs"
    and "1 \<le> requests_per_minute g" and "within_limits (g, c)"
  shows "within_limits (g', c') \<and> same_config g g'"
  using assms
proof (induction evs arbitrary: g c)
  case Nil
  then show ?case by (simp add: same_config_def)
next
  case (Cons e evs)
  from Cons.prems(1) obtain g1 c1 where s: "step e (g, c) = Inr (g1, c1)"
    and r: "run evs (g1, c1) = Inr (g', c')"
    by (auto simp: and_then_Inr_iff)
  from Cons.prems(2) have ok: "event_ok e" "list_all event_ok evs" by simp_all
  have cfg: "same_config g g1" using s by (rule step_same_config)
  have "within_limits (g1, c1)"
    using s ok(1) Cons.prems(3,4) by (rule step_within_limits)
  moreover have "1 \<le> requests_per_minute g1"
    using cfg Cons.prems(3) by (simp add: same_config_def)
  ultimately have "within_limits (g', c') \<and> same_config g1 g'"
    using Cons.IH [OF r ok(2)] by simp
  with cfg show ?case by (simp add: same_config_def)
qed

lemma init_Inr:
  assumes "RateLimiter_init args = Inr g"
  shows "other_keywords args = []"
    and "requests_per_minute g = or_default (arg_requests_per_minute args) 30"
    and "requests_per_hour g = or_default (arg_requests_per_hour args) 500"
    and "min_delay g = or_default (arg_min_delay args) 2"
    and "max_backoff g = 300"
    and "request_times g = []"
    and "last_request_time g = 0"
    and "consecutive_errors g = 0"
    and "0 \<le> requests_per_hour g"
    and "requests_per_hour g < 2 ^ 63"
  using assms by (auto simp: RateLimiter_init_def Let_def split: if_splits)

lemma set_deque_append: "set (deque_append m ts t) \<subseteq> insert t (set ts)"
proof -
  have "set (deque_append m ts t) \<subseteq> set (ts @ [t])"
    unfolding deque_append_def Let_def by (rule set_drop_subset)
  then show ?thesis by auto
qed

lemma step_log_past:
  assumes s: "step e (g, c) = Inr (g', c')" and ok: "event_ok e"
    and past: "\<forall>x \<in> set (request_times g). x \<le> c"
  shows "\<forall>x \<in> set (request_times g'). x \<le> c'"
proof (cases e)
  case (Tick dt)
  with s ok have "g' = g" "c \<le> c'" by auto
  with past show ?thesis by fastforce
next
  case (Acquire ls)
  with s obtain sl where w: "wait g c ls = Inr (g', c', sl)"
    by (auto simp: and_then_Inr_iff)
  from ok Acquire have "lags_ok ls" by simp
  with w have "c \<le> c'" by (rule wait_clock(1))
  with past set_deque_append [of "nat (requests_per_hour g)" "request_times g" c']
  show ?thesis unfolding wait_frame(7) [OF w] by fastforce
qed (use s past in \<open>auto simp: record_success_def record_error_def get_stats_def Let_def\<close>)

lemma run_log_past:
  assumes "run evs (g, c) = Inr (g', c')" and "list_all event_ok evs"
    and "\<forall>x \<in> set (request_times g). x \<le> c"
  shows "\<forall>x \<in> set (request_times g'). x \<le> c'"
  using assms
proof (induction evs arbitrary: g c)
  case Nil
  then show ?case by simp
next
  case (Cons e evs)
  from Cons.prems(1) obtain g1 c1 where s: "step e (g, c) = Inr (g1, c1)"
    and r: "run evs (g1, c1) = Inr (g', c')"
    by (auto simp: and_then_Inr_iff)
  from Cons.prems(2) have ok: "event_ok e" "list_all event_ok evs" by simp_all
  have "\<forall>x \<in> set (request_times g1). x \<le> c1"
    using s ok(1) Cons.prems(3) by (rule step_log_past)
  with r ok(2) show ?case by (rule Cons.IH)
qed

text \<open>
  Claim C1, as amended. Take a limiter built by the constructor with
  \<open>requests_per_minute \<ge> 1\<close>, a starting clock and any sequence of calls in which the
  clock does not run backwards and no sleep returns early. Whenever the sequence returns,
  at that moment and at any later time the log holds at most \<open>requests_per_minute\<close> entries
  newer than 60 seconds and at most \<open>requests_per_hour\<close> entries newer than 3600 seconds;
  this holds in particular right after each \<open>wait\<close>, since every prefix of a sequence is a
  sequence. The limits are kept by waiting: in every state so reached the two window
  checks never raise, they sleep or pass; and a \<open>wait\<close> that returns has recorded its
  request, as the time of the last request and by appending it to the bounded log.
\<close>

theorem windows_respected:
  assumes init: "RateLimiter_init args = Inr g0"
    and rpm: "1 \<le> requests_per_minute g0"
    and evs: "list_all event_ok evs"
  shows "(\<forall>g c t. run evs (g0, c0) = Inr (g, c) \<longrightarrow> c \<le> t \<longrightarrow>
            count_newer (request_times g) (t - 60) \<le> requests_per_minute g0 \<and>
            count_newer (request_times g) (t - 3600) \<le> requests_per_hour g0) \<and>
         (\<forall>g c t lag sl. run evs (g0, c0) = Inr (g, c) \<longrightarrow> c \<le> t \<longrightarrow>
            (\<exists>w. window_check 60 (requests_per_minute g) g lag (t, sl) = Inr w) \<and>
            (\<exists>w. window_check 3600 (requests_per_hour g) g lag (t, sl) = Inr w)) \<and>
         (\<forall>g c ls g' c' sl. run evs (g0, c0) = Inr (g, c) \<longrightarrow>
            wait g c ls = Inr (g', c', sl) \<longrightarrow>
            last_request_time g' = c' \<and>
            request_times g' = deque_append (nat (requests_per_hour g0)) (request_times g) c')"
proof (intro conjI impI allI)
  fix g c t
  assume r: "run evs (g0, c0) = Inr (g, c)" and t: "c \<le> t"
  have "within_limits (g0, c0)"
    using rpm init_Inr(9) [OF init]
    by (simp add: within_limits_def log_bounded_def count_newer_def newer_def
        init_Inr(6,8) [OF init])
  with r evs rpm have i: "within_limits (g, c)" and cfg: "same_config g0 g"
    using run_within_limits by blast+
  from i cfg have "count_newer (request_times g) (c - 60) \<le> requests_per_minute g0"
    by (simp add: within_limits_def same_config_def)
  then show "count_newer (request_times g) (t - 60) \<le> requests_per_minute g0"
    using count_newer_mono [of "c - 60" "t - 60" "request_times g"] t by simp
  from i cfg have "int (length (request_times g)) \<le> requests_per_hour g0"
    by (simp add: within_limits_def log_bounded_def same_config_def)
  then show "count_newer (request_times g) (t - 3600) \<le> requests_per_hour g0"
    using count_newer_le_length [of "request_times g" "t - 3600"] by simp
next
  fix g c t lag and sl :: "real list"
  assume r: "run evs (g0, c0) = Inr (g, c)" and t: "c \<le> t"
  have "\<forall>x \<in> set (request_times g0). x \<le> c0" by (simp add: init_Inr(6) [OF init])
  with r evs have "\<forall>x \<in> set (request_times g). x \<le> c" by (rule run_log_past)
  with t have past: "\<forall>x \<in> set (request_times g). x \<le> fst (t, sl)" by fastforce
  show "\<exists>w. window_check 60 (requests_per_minute g) g lag (t, sl) = Inr w"
    using past by (rule window_check_total) simp_all
  show "\<exists>w. window_check 3600 (requests_per_hour g) g lag (t, sl) = Inr w"
    using past by (rule window_check_total) simp_all
next
  fix g c ls g' c' sl
  assume r: "run evs (g0, c0) = Inr (g, c)" and w: "wait g c ls = Inr (g', c', sl)"
  have "within_limits (g0, c0)"
    using rpm init_Inr(9) [OF init]
    by (simp add: within_limits_def log_bounded_def count_newer_def newer_def
        init_Inr(6,8) [OF init])
  with r evs rpm have "same_config g0 g" using run_within_limits by blast
  then have "requests_per_hour g = requests_per_hour g0" by (simp add: same_config_def)
  with wait_frame(6,7) [OF w]
  show "last_request_time g' = c'"
    and "request_times g' = deque_append (nat (requests_per_hour g0)) (request_times g) c'"
    by simp_all
qed

theorem windows_respected_witness:
  "run [Acquire (0, 0, 0, 0), Tick 1, ReportError, Acquire (0, 1/2, 0, 0)]
      (default_limiter, 100)
     = Inr (default_limiter\<lparr>request_times := [100, 106], last_request_time := 106,
              consecutive_errors := 1\<rparr>, 106) \<and>
   count_newer [100, 106] (106 - 60) \<le> 30 \<and>
   count_newer [100, 106] (106 - 3600) \<le> 500 \<and>
   (\<exists>w. window_check 60 30
          (default_limiter\<lparr>request_times := [100, 106], last_request_time := 106,
             consecutive_errors := 1\<rparr>) 0 (106, []) = Inr w)"
proof -
  let ?g = "default_limiter\<lparr>request_times := [100, 106], last_request_time := 106,
              consecutive_errors := 1\<rparr>"
  let ?evs = "[Acquire (0, 0, 0, 0), Tick 1, ReportError, Acquire (0, 1/2, 0, 0)]"
  have init: "RateLimiter_init no_args = Inr default_limiter"
    by (simp add: RateLimiter_init_def no_args_def or_default_def default_limiter_def)
  have rpm: "1 \<le> requests_per_minute default_limiter" by (simp add: default_limiter_def)
  have evs: "list_all event_ok ?evs" by simp
  have reach: "run ?evs (default_limiter, 100) = Inr (?g, 106)"
    by (simp add: default_limiter_def wait_def enforce_min_delay_def window_check_def
        backoff_check_def backoff_def sleep_def record_request_def record_error_def
        deque_append_def count_newer_def newer_def Let_def)
  from windows_respected [OF init rpm evs, of 100] reach
  have "count_newer (request_times ?g) (106 - 60) \<le> requests_per_minute default_limiter"
    "count_newer (request_times ?g) (106 - 3600) \<le> requests_per_hour default_limiter"
    "\<exists>w. window_check 60 (requests_per_minute ?g) ?g 0 (106, []) = Inr w"
    by blast+
  with reach show ?thesis by (simp add: default_limiter_def)
qed

text \<open>
  With \<open>requests_per_minute = 0\<close> the first \<open>wait\<close> sleeps one second and records the
  request all the same: one entry in the last minute, above the limit of zero.
\<close>

theorem windows_respected_counterexample:
  "RateLimiter_init (no_args\<lparr>arg_requests_per_minute := Some 0\<rparr>) =
     Inr \<lparr>requests_per_minute = 0, requests_per_hour = 500, min_delay = 2,
          request_times = [], last_request_time = 0, consecutive_errors = 0,
          max_backoff = 300\<rparr> \<and>
   run [Acquire (0, 0, 0, 0)]
     (\<lparr>requests_per_minute = 0, requests_per_hour = 500, min_delay = 2,
       request_times = [], last_request_time = 0, consecutive_errors = 0,
       max_backoff = 300\<rparr>, 100) =
     Inr (\<lparr>requests_per_minute = 0, requests_per_hour = 500, min_delay = 2,
           request_times = [101], last_request_time = 101, consecutive_errors = 0,
           max_backoff = 300\<rparr>, 101) \<and>
   count_newer [101] (101 - 60) = 1 \<and>
   \<not> count_newer [101] (101 - 60) \<le> 0"
  by (simp add: RateLimiter_init_def no_args_def or_default_def wait_def
      enforce_min_delay_def window_check_def backoff_check_def sleep_def
      record_request_def deque_append_def count_newer_def newer_def Let_def)

lemma step_not_acquire:
  assumes "step e (g, c) = Inr (g', c')" and "\<not> is_acquire e"
  shows "last_request_time g' = last_request_time g \<and> min_delay g' = min_delay g"
  using assms
  by (cases e) (auto simp: record_success_def record_error_def get_stats_def Let_def)

lemma run_no_acquire:
  assumes "run evs (g, c) = Inr (g', c')" and "list_all (\<lambda>e. \<not> is_acquire e) evs"
  shows "last_request_time g' = last_request_time g \<and> min_delay g' = min_delay g"
  using assms
proof (induction evs arbitrary: g c)
  case Nil
  then show ?case by simp
next
  case (Cons e evs)
  from Cons.prems(1) obtain g1 c1 where s: "step e (g, c) = Inr (g1, c1)"
    and r: "run evs (g1, c1) = Inr (g', c')"
    by (auto simp: and_then_Inr_iff)
  from Cons.prems(2) have e: "\<not> is_acquire e" and es: "list_all (\<lambda>e. \<not> is_acquire e) evs"
    by simp_all
  from step_not_acquire [OF s e] Cons.IH [OF r es] show ?case by simp
qed

lemma wait_first_sleep:
  assumes w: "wait g t0 ls = Inr (g', t', sl)"
    and short: "t0 - last_request_time g < min_delay g"
  shows "take 1 sl = [min_delay g - (t0 - last_request_time g)]"
proof -
  obtain l1 l2 l3 l4 where ls: "ls = (l1, l2, l3, l4)" by (cases ls) auto
  from w obtain w1 w2 w3 w4 where
    1: "enforce_min_delay g l1 (t0, []) = Inr w1" and
    2: "window_check 60 (requests_per_minute g) g l2 w1 = Inr w2" and
    3: "window_check 3600 (requests_per_hour g) g l3 w2 = Inr w3" and
    4: "backoff_check g l4 w3 = Inr w4" and
    r: "sl = snd w4"
    unfolding ls wait_Inr_iff by auto
  let ?d = "min_delay g - (t0 - last_request_time g)"
  from enforce_min_delay_Inr [OF 1] short have "snd w1 = [?d]" by simp
  moreover from 2 have "\<exists>ys. snd w2 = snd w1 @ ys"
    by (auto simp: window_check_def Let_def sleep_Inr split: if_splits)
  moreover from 3 have "\<exists>ys. snd w3 = snd w2 @ ys"
    by (auto simp: window_check_def Let_def sleep_Inr split: if_splits)
  moreover from 4 have "\<exists>ys. snd w4 = snd w3 @ ys"
    by (auto simp: backoff_check_def and_then_Inr_iff sleep_Inr split: if_splits)
  ultimately show ?thesis by (auto simp: r)
qed

text \<open>
  Claim C3. Take two consecutive calls of \<open>wait\<close> on one limiter that both return, with
  any calls but \<open>wait\<close> and any passing of time in between, the sleeps of the second not
  returning early. The second request is recorded at least \<open>min_delay\<close> after the first.
  When the second call is entered less than \<open>min_delay\<close> after the first was recorded, its
  first sleep is exactly the remaining time; otherwise the distance is already there.
\<close>

theorem consecutive_acquires_spaced:
  assumes first: "wait g t0 ls = Inr (g1, t1, sl1)"
    and between: "run evs (g1, t1) = Inr (g2, t2)"
    and no_acquire: "list_all (\<lambda>e. \<not> is_acquire e) evs"
    and second: "wait g2 t2 ls' = Inr (g3, t3, sl3)"
    and lags: "lags_ok ls'"
  shows "last_request_time g1 = t1 \<and> last_request_time g3 = t3 \<and>
         t1 + min_delay g \<le> t3 \<and>
         (if t2 - t1 < min_delay g then take 1 sl3 = [min_delay g - (t2 - t1)]
          else t1 + min_delay g \<le> t2)"
proof -
  have a: "last_request_time g1 = t1" "min_delay g1 = min_delay g"
    using wait_frame(6,3) [OF first] by simp_all
  have b: "last_request_time g2 = t1" "min_delay g2 = min_delay g"
    using run_no_acquire [OF between no_acquire] a by simp_all
  have c: "last_request_time g3 = t3" using wait_frame(6) [OF second] .
  have d: "t1 + min_delay g \<le> t3" using wait_clock(2) [OF second lags] b by simp
  have e: "take 1 sl3 = [min_delay g - (t2 - t1)]" if "t2 - t1 < min_delay g"
    using wait_first_sleep [OF second] that b by simp
  show ?thesis using a c d e by auto
qed

theorem consecutive_acquires_spaced_witness:
  "wait \<lparr>requests_per_minute = 30, requests_per_hour = 500, min_delay = 2,
          request_times = [100], last_request_time = 100, consecutive_errors = 1,
          max_backoff = 300\<rparr> (201 / 2) (0, 0, 0, 0)
     = Inr (\<lparr>requests_per_minute = 30, requests_per_hour = 500, min_delay = 2,
             request_times = [100, 106], last_request_time = 106, consecutive_errors = 1,
             max_backoff = 300\<rparr>, 106, [3 / 2, 4]) \<and>
   (100::real) + 2 \<le> 106 \<and> take 1 [3 / 2, 4 :: real] = [2 - (201 / 2 - 100)]"
proof -
  let ?g = "\<lparr>requests_per_minute = 30, requests_per_hour = 500, min_delay = 2,
          request_times = [], last_request_time = 0, consecutive_errors = 0,
          max_backoff = 300\<rparr>"
  let ?g1 = "?g\<lparr>request_times := [100], last_request_time := 100\<rparr>"
  let ?g2 = "?g1\<lparr>consecutive_errors := 1\<rparr>"
  let ?g3 = "?g2\<lparr>request_times := [100, 106], last_request_time := 106\<rparr>"
  have first: "wait ?g 100 (0, 0, 0, 0) = Inr (?g1, 100, [])"
    by (simp add: wait_def enforce_min_delay_def window_check_def backoff_check_def
        record_request_def deque_append_def count_newer_def newer_def Let_def)
  have between: "run [Tick (1 / 2), ReportError] (?g1, 100) = Inr (?g2, 201 / 2)"
    by (simp add: record_error_def)
  have no_acquire: "list_all (\<lambda>e. \<not> is_acquire e) [Tick (1 / 2), ReportError]" by simp
  have second: "wait ?g2 (201 / 2) (0, 0, 0, 0) = Inr (?g3, 106, [3 / 2, 4])"
    by (simp add: wait_def enforce_min_delay_def window_check_def backoff_check_def
        backoff_def sleep_def record_request_def deque_append_def count_newer_def
        newer_def Let_def)
  have lags: "lags_ok (0, 0, 0, 0)" by simp
  from consecutive_acquires_spaced [OF first between no_acquire second lags] second
  show ?thesis by simp
qed







lemma funpow_record_error:
  "(record_error ^^ n) g = g\<lparr>consecutive_errors := consecutive_errors g + int n\<rparr>"
  by (induction n) (simp_all add: record_error_def)

text \<open>
  Claim C5. \<open>record_success\<close> sets \<open>consecutive_errors\<close> to 0 whatever it was, changes
  nothing else, is idempotent and cannot fail. After any number \<open>n\<close> of \<open>record_error\<close> calls
  and one \<open>record_success\<close>, one more \<open>record_error\<close> leaves the counter at 1, and the
  backoff of the next \<open>wait\<close> is the one for \<open>k = 1\<close>: \<open>min (min_delay * 2) max_backoff\<close>.
\<close>

theorem success_resets_errors:
  "consecutive_errors (record_success g) = 0 \<and>
   record_success (record_success g) = record_success g \<and>
   record_success g = g\<lparr>consecutive_errors := 0\<rparr> \<and>
   consecutive_errors ((record_error ^^ n) g) = consecutive_errors g + int n \<and>
   consecutive_errors (record_error (record_success ((record_error ^^ n) g))) = 1 \<and>
   backoff (record_error (record_success ((record_error ^^ n) g)))
     = Inr (min (min_delay g * 2) (max_backoff g))"
  by (simp add: funpow_record_error record_success_def record_error_def backoff_def)

lemma step_log_bounded:
  assumes s: "step e (g, c) = Inr (g', c')" and inv: "log_bounded g"
  shows "log_bounded g'"
proof (cases e)
  case (Acquire ls)
  with s obtain sl where w: "wait g c ls = Inr (g', c', sl)"
    by (auto simp: and_then_Inr_iff)
  from inv have le: "int (length (request_times g)) \<le> requests_per_hour g"
    by (simp add: log_bounded_def)
  then have "length (request_times g) \<le> nat (requests_per_hour g)" by linarith
  with length_deque_append [of "nat (requests_per_hour g)" "request_times g" c']
  have "length (deque_append (nat (requests_per_hour g)) (request_times g) c')
      \<le> nat (requests_per_hour g)" by simp
  then have "int (length (request_times g')) \<le> requests_per_hour g"
    using le by (simp add: wait_frame(7) [OF w])
  then show ?thesis using inv by (simp add: log_bounded_def wait_frame(2,5) [OF w])
qed (use s inv in \<open>auto simp: log_bounded_def record_success_def record_error_def
      get_stats_def Let_def\<close>)

lemma run_log_bounded:
  assumes "run evs (g, c) = Inr (g', c')" and "log_bounded g"
  shows "log_bounded g' \<and> same_config g g'"
  using assms
proof (induction evs arbitrary: g c)
  case Nil
  then show ?case by (simp add: same_config_def)
next
  case (Cons e evs)
  from Cons.prems(1) obtain g1 c1 where s: "step e (g, c) = Inr (g1, c1)"
    and r: "run evs (g1, c1) = Inr (g', c')"
    by (auto simp: and_then_Inr_iff)
  have cfg: "same_config g g1" using s by (rule step_same_config)
  have "log_bounded g1" using s Cons.prems(2) by (rule step_log_bounded)
  from Cons.IH [OF r this] cfg show ?case by (simp add: same_config_def)
qed

lemma init_log_bounded: "RateLimiter_init args = Inr g \<Longrightarrow> log_bounded g"
  using init_Inr(9) [of args g] by (simp add: log_bounded_def init_Inr(6,8))

lemma run_without_stats: "run (filter (\<lambda>e. \<not> is_stats e) evs) s = run evs s"
proof (induction evs arbitrary: s)
  case Nil
  show ?case by simp
next
  case (Cons e evs)
  obtain g c where s: "s = (g, c)" by (cases s)
  show ?case
  proof (cases "is_stats e")
    case True
    then have "e = Stats" by (cases e) simp_all
    then show ?thesis by (simp add: s Cons.IH get_stats_def Let_def)
  next
    case False
    then show ?thesis by (cases "step e s") (simp_all add: Cons.IH)
  qed
qed

text \<open>
  Claim C7. For a limiter reached from the constructor by any sequence of calls,
  \<open>get_stats\<close> leaves the limiter as it was, so a \<open>Stats\<close> step changes neither limiter nor
  clock and a sequence run without its \<open>Stats\<close> calls ends in the same state. The result
  holds the number of log entries newer than 60 seconds, the number newer than 3600 seconds,
  the error counter and the length of the log, and none of the four is negative.
\<close>

theorem stats_side_effect_free:
  assumes init: "RateLimiter_init args = Inr g0"
    and reach: "run evs (g0, c0) = Inr (g, c)"
  shows "snd (get_stats g t) = g \<and>
         step Stats (g, c) = Inr (g, c) \<and>
         run (filter (\<lambda>e. \<not> is_stats e) evs) (g0, c0) = Inr (g, c) \<and>
         fst (get_stats g t) =
           \<lparr>requests_last_minute = count_newer (request_times g) (t - 60),
            requests_last_hour = count_newer (request_times g) (t - 3600),
            stat_consecutive_errors = consecutive_errors g,
            total_requests = int (length (request_times g))\<rparr> \<and>
         0 \<le> requests_last_minute (fst (get_stats g t)) \<and>
         0 \<le> requests_last_hour (fst (get_stats g t)) \<and>
         0 \<le> stat_consecutive_errors (fst (get_stats g t)) \<and>
         0 \<le> total_requests (fst (get_stats g t))"
proof -
  have "log_bounded g"
    using run_log_bounded [OF reach init_log_bounded [OF init]] by simp
  then have "0 \<le> consecutive_errors g" by (simp add: log_bounded_def)
  then show ?thesis
    using reach by (simp add: get_stats_def Let_def run_without_stats count_newer_nonneg)
qed

text \<open>
  Claim C9. For a limiter reached from the constructor by any sequence of calls and a
  snapshot taken at any time: \<open>0 \<le> requests_last_minute \<le> requests_last_hour \<le>
  total_requests \<le> requests_per_hour\<close>, and the error counter is not negative.
\<close>

theorem stats_ordered:
  assumes init: "RateLimiter_init args = Inr g0"
    and reach: "run evs (g0, c0) = Inr (g, c)"
  shows "0 \<le> requests_last_minute (fst (get_stats g t)) \<and>
         requests_last_minute (fst (get_stats g t)) \<le> requests_last_hour (fst (get_stats g t)) \<and>
         requests_last_hour (fst (get_stats g t)) \<le> total_requests (fst (get_stats g t)) \<and>
         total_requests (fst (get_stats g t)) \<le> requests_per_hour g0 \<and>
         0 \<le> stat_consecutive_errors (fst (get_stats g t))"
proof -
  have "log_bounded g" and "same_config g0 g"
    using run_log_bounded [OF reach init_log_bounded [OF init]] by simp_all
  then have "int (length (request_times g)) \<le> requests_per_hour g0"
    and "0 \<le> consecutive_errors g"
    by (simp_all add: log_bounded_def same_config_def)
  moreover have "count_newer (request_times g) (t - 60) \<le> count_newer (request_times g) (t - 3600)"
    by (rule count_newer_mono) simp
  ultimately show ?thesis
    by (simp add: get_stats_def Let_def count_newer_nonneg count_newer_le_length)
qed

text \<open>
  Claim C8, as amended. The constructor takes three inputs, each optional:
  \<open>requests_per_minute\<close> (default 30), \<open>requests_per_hour\<close> (default 500) and \<open>min_delay\<close>
  (default 2.0). It builds a limiter exactly when no other keyword is given and
  \<open>requests_per_hour\<close>, the capacity of the log, lies between 0 and \<open>2^63 - 1\<close>, and that
  limiter has the three values and \<open>max_backoff = 300\<close>. Any other keyword raises
  \<open>TypeError\<close>.
\<close>

theorem constructor_inputs:
  "((\<exists>g. RateLimiter_init args = Inr g) \<longleftrightarrow>
      other_keywords args = [] \<and> 0 \<le> or_default (arg_requests_per_hour args) 500 \<and>
      or_default (arg_requests_per_hour args) 500 < 2 ^ 63) \<and>
   (other_keywords args \<noteq> [] \<longrightarrow> RateLimiter_init args = Inl TypeError) \<and>
   (\<forall>g. RateLimiter_init args = Inr g \<longrightarrow>
      requests_per_minute g = or_default (arg_requests_per_minute args) 30 \<and>
      requests_per_hour g = or_default (arg_requests_per_hour args) 500 \<and>
      min_delay g = or_default (arg_min_delay args) 2 \<and>
      max_backoff g = 300)"
  by (auto simp: RateLimiter_init_def Let_def)

text \<open>
  Claim C10, as amended. On a limiter fresh from the constructor with
  \<open>requests_per_minute \<ge> 1\<close> and \<open>requests_per_hour \<ge> 1\<close>, a first \<open>wait\<close> entered at a
  clock reading of at least \<open>min_delay\<close> makes no sleep at all and records the entry time as
  the only log entry and as the time of the last request.
\<close>

theorem first_acquire_immediate:
  assumes init: "RateLimiter_init args = Inr g"
    and clock: "min_delay g \<le> t0"
    and rpm: "1 \<le> requests_per_minute g"
    and rph: "1 \<le> requests_per_hour g"
  shows "wait g t0 ls = Inr (g\<lparr>request_times := [t0], last_request_time := t0\<rparr>, t0, [])"
proof -
  obtain l1 l2 l3 l4 where ls: "ls = (l1, l2, l3, l4)" by (cases ls) auto
  have "nat (requests_per_hour g) \<noteq> 0" using rph by simp
  then have "deque_append (nat (requests_per_hour g)) [] t0 = [t0]"
    by (simp add: deque_append_def)
  then show ?thesis
    using clock rpm rph
    by (simp add: ls wait_def enforce_min_delay_def window_check_def backoff_check_def
        record_request_def count_newer_def newer_def Let_def init_Inr(6,7,8) [OF init])
qed

section \<open>Properties of the client and the worker\<close>

lemma upt_0_3: "[0..<3] = [0, 1, 2]" by (simp add: upt_rec)
lemma upt_0_2: "[0..<2] = [0, 1]" by (simp add: upt_rec)

lemma poll_loop_plain:
  "filter is_search (snd (poll_loop ans attempts)) = [] \<and>
   filter is_download (snd (poll_loop ans attempts)) = []"
  by (induction attempts) (auto simp: after_def split: poll.splits answer.splits)

lemma save_download_plain:
  "filter is_search (snd (save_download os d out p f)) = [] \<and>
   filter is_download (snd (save_download os d out p f)) = []"
  by (auto simp: save_download_def after_def Let_def split: answer.splits)

lemma click_and_save_plain:
  "filter is_search (snd (click_and_save os d out p)) = [] \<and>
   filter is_download (snd (click_and_save os d out p)) = []"
  by (auto simp: click_and_save_def after_def save_download_plain split: answer.splits)

lemma perform_download_plain:
  "filter is_search (snd (perform_download c os url out p)) = [] \<and>
   filter is_download (snd (perform_download c os url out p)) = []"
proof -
  obtain r acts where pl: "poll_loop (poll_answer p) [0..<150] = (r, acts)"
    by (cases "poll_loop (poll_answer p) [0..<150]")
  from poll_loop_plain [of "poll_answer p" "[0..<150]"]
  have "filter is_search acts = []" "filter is_download acts = []"
    by (simp_all add: pl)
  then show ?thesis
    by (cases r)
      (simp_all add: perform_download_def after_def Let_def pl click_and_save_plain
        split: answer.splits)
qed

lemma download_track_client:
  "download_track c os url out page = Inr (r, acts, c') \<Longrightarrow> c' = c"
  by (auto simp: download_track_def Let_def split: page_arg.splits answer.splits)

lemma download_track_given:
  "download_track c os url out (GivenPage p) =
     Inr (fst (perform_download c os url out p), snd (perform_download c os url out p), c)"
  by (simp add: download_track_def Let_def)

lemma search_loop_trace:
  "length (filter is_search (snd (search_loop ans q u attempts))) \<le> length attempts \<and>
   filter is_download (snd (search_loop ans q u attempts)) = []"
  by (induction attempts arbitrary: u) (auto simp: after_def Let_def)

lemma search_loop_exhausted:
  assumes "\<forall>i \<in> set attempts. \<not> truthy (get_direct_amazon_link_async (ans i))"
    and "\<not> truthy u"
  shows "\<not> truthy (fst (search_loop ans q u attempts)) \<and>
         snd (search_loop ans q u attempts)
           = concat (map (\<lambda>i. [SearchCall q, Pause 2]) attempts)"
  using assms by (induction attempts arbitrary: u) (auto simp: after_def Let_def)

lemma download_loop_trace:
  "snd (snd (download_loop c os ws url path attempts)) = c \<and>
   length (filter is_download (fst (snd (download_loop c os ws url path attempts))))
     \<le> length attempts \<and>
   filter is_search (fst (snd (download_loop c os ws url path attempts))) = []"
proof (induction attempts)
  case Nil
  show ?case by simp
next
  case (Cons attempt rest)
  obtain out acts c' where rec: "download_loop c os ws url path rest = (out, acts, c')"
    by (cases "download_loop c os ws url path rest") auto
  with Cons.IH have ih: "c' = c" "length (filter is_download acts) \<le> length rest"
    "filter is_search acts = []" by simp_all
  show ?case
    by (simp add: download_track_given perform_download_plain rec ih split: answer.splits)
qed

lemma download_loop_exhausted:
  assumes "\<forall>i \<in> set attempts.
             \<not> success (fst (perform_download c os url (Some path) (download_answer ws i))) \<and>
             blank_answer ws i = Returned ()"
  shows "download_loop c os ws url path attempts =
           (PermanentFailure,
            concat (map (\<lambda>i. DownloadCall url path #
                           snd (perform_download c os url (Some path) (download_answer ws i)) @
                           [Goto ''about:blank'', Pause 2]) attempts),
            c)"
  using assms by (induction attempts) (simp_all add: download_track_given)

lemma process_track_async_app:
  "snd (snd (process_track_async app os ws track index)) = app"
proof -
  obtain u sacts where sl: "search_loop (search_answer ws) (query track) None [0..<3] = (u, sacts)"
    by (cases "search_loop (search_answer ws) (query track) None [0..<3]")
  have keep: "snd (snd (download_loop (client app) os ws url path [0..<2])) = client app"
    for url path
    using download_loop_trace [of "client app" os ws url path "[0..<2]"] by simp
  show ?thesis
    by (cases "new_page_answer ws")
      (auto simp: process_track_async_def sl Let_def keep split: prod.splits
        dest: arg_cong [where f = "\<lambda>r. snd (snd r)"])
qed

lemma process_track_async_counts:
  "length (filter is_search (fst (snd (process_track_async app os ws track index)))) \<le> 3 \<and>
   length (filter is_download (fst (snd (process_track_async app os ws track index)))) \<le> 2"
proof -
  obtain u sacts where sl: "search_loop (search_answer ws) (query track) None [0..<3] = (u, sacts)"
    by (cases "search_loop (search_answer ws) (query track) None [0..<3]")
  from search_loop_trace [of "search_answer ws" "query track" None "[0..<3]"]
  have s: "length (filter is_search sacts) \<le> 3" "filter is_download sacts = []"
    by (simp_all add: sl)
  have d: "length (filter is_download (fst (snd (download_loop (client app) os ws url path [0..<2])))) \<le> 2
      \<and> filter is_search (fst (snd (download_loop (client app) os ws url path [0..<2]))) = []"
    for url path
    using download_loop_trace [of "client app" os ws url path "[0..<2]"] by simp
  show ?thesis
  proof (cases "new_page_answer ws")
    case (Raised e)
    then show ?thesis by (simp add: process_track_async_def)
  next
    case (Returned x)
    show ?thesis
    proof (cases "truthy u")
      case False
      then show ?thesis using s by (simp add: process_track_async_def Returned sl)
    next
      case True
      let ?path = "output_path_of app os track"
      obtain out dacts c' where dl:
        "download_loop (client app) os ws (the u) ?path [0..<2] = (out, dacts, c')"
        by (cases "download_loop (client app) os ws (the u) ?path [0..<2]") auto
      from d [of "the u" ?path] have "length (filter is_download dacts) \<le> 2"
        "filter is_search dacts = []" by (simp_all add: dl)
      then show ?thesis using s True
        by (simp add: process_track_async_def Returned sl Let_def dl)
    qed
  qed
qed

lemma gather_workers_all:
  "gather_workers app os wss k tracks =
     (map (\<lambda>(i, track).
             (fst (process_track_async app os (wss i) track i),
              fst (snd (process_track_async app os (wss i) track i))))
        (zip [k..<k + length tracks] tracks),
      app)"
proof (induction tracks arbitrary: k)
  case Nil
  show ?case by simp
next
  case (Cons track tracks)
  obtain out acts app' where p: "process_track_async app os (wss k) track k = (out, acts, app')"
    by (cases "process_track_async app os (wss k) track k") auto
  with process_track_async_app [of app os "wss k" track k] have app': "app' = app" by simp
  have "[k..<k + length (track # tracks)] = k # [Suc k..<Suc k + length tracks]"
    by (simp add: upt_rec)
  then show ?case by (simp add: p app' Cons.IH)
qed

text \<open>
  Claim C6. One worker calls the search at most 3 times and \<open>download_track\<close> at most 2
  times, and leaves the application object, with the client and its limiter, as it was.
  When the page opens and all three searches fail, it pauses 2 seconds after each, makes no
  download call and ends as \<open>Skipped\<close>. When a link is found and both downloads fail, each
  is followed by the navigation to \<open>about:blank\<close> and a pause of 2 seconds, and the worker
  ends as \<open>PermanentFailure\<close>. Every worker returns an outcome, and gathering the workers
  gives one result per track, each what its worker computes on its own.
\<close>

theorem worker_retry_policy:
  assumes run: "process_track_async app os ws track index = (out, acts, app')"
  shows "app' = app \<and>
         length (filter is_search acts) \<le> 3 \<and>
         length (filter is_download acts) \<le> 2 \<and>
         (new_page_answer ws = Returned () \<and>
          (\<forall>i < 3. \<not> truthy (get_direct_amazon_link_async (search_answer ws i))) \<longrightarrow>
            out = Skipped \<and>
            acts = [Pause (real index * 5), NewPage,
                    SearchCall (query track), Pause 2,
                    SearchCall (query track), Pause 2,
                    SearchCall (query track), Pause 2, ClosePage]) \<and>
         (\<forall>url path.
            new_page_answer ws = Returned () \<and>
            fst (search_loop (search_answer ws) (query track) None [0..<3]) = Some url \<and>
            url \<noteq> [] \<and>
            path = output_path_of app os track \<and>
            (\<forall>i < 2.
               \<not> success (fst (perform_download (client app) os url (Some path)
                                 (download_answer ws i))) \<and>
               blank_answer ws i = Returned ()) \<longrightarrow>
            out = PermanentFailure \<and>
            length (filter is_download acts) = 2 \<and>
            acts = [Pause (real index * 5), NewPage] @
                   snd (search_loop (search_answer ws) (query track) None [0..<3]) @
                   (DownloadCall url path #
                    snd (perform_download (client app) os url (Some path) (download_answer ws 0)) @
                    [Goto ''about:blank'', Pause 2]) @
                   (DownloadCall url path #
                    snd (perform_download (client app) os url (Some path) (download_answer ws 1)) @
                    [Goto ''about:blank'', Pause 2]) @
                   [ClosePage]) \<and>
         gather_workers app os wss k tracks =
           (map (\<lambda>(i, track).
                   (fst (process_track_async app os (wss i) track i),
                    fst (snd (process_track_async app os (wss i) track i))))
              (zip [k..<k + length tracks] tracks),
            app)"
proof (intro conjI impI allI)
  show "app' = app" using process_track_async_app [of app os ws track index] run by simp
  show "length (filter is_search acts) \<le> 3" and "length (filter is_download acts) \<le> 2"
    using process_track_async_counts [of app os ws track index] run by simp_all
  show "gather_workers app os wss k tracks =
           (map (\<lambda>(i, track).
                   (fst (process_track_async app os (wss i) track i),
                    fst (snd (process_track_async app os (wss i) track i))))
              (zip [k..<k + length tracks] tracks),
            app)"
    by (rule gather_workers_all)
next
  assume a: "new_page_answer ws = Returned () \<and>
          (\<forall>i < 3. \<not> truthy (get_direct_amazon_link_async (search_answer ws i)))"
  then have "\<forall>i \<in> set [0..<3]. \<not> truthy (get_direct_amazon_link_async (search_answer ws i))"
    by simp
  from search_loop_exhausted [OF this, of None "query track"]
  have s: "\<not> truthy (fst (search_loop (search_answer ws) (query track) None [0..<3]))"
    "snd (search_loop (search_answer ws) (query track) None [0..<3])
       = concat (map (\<lambda>i. [SearchCall (query track), Pause 2]) [0..<3])"
    by simp_all
  have s2: "snd (search_loop (search_answer ws) (query track) None [0..<3])
       = [SearchCall (query track), Pause 2, SearchCall (query track), Pause 2,
          SearchCall (query track), Pause 2]"
    unfolding s(2) by (simp add: upt_0_3)
  obtain u sacts where sl:
    "search_loop (search_answer ws) (query track) None [0..<3] = (u, sacts)"
    by (cases "search_loop (search_answer ws) (query track) None [0..<3]")
  from s(1) s2 have u: "\<not> truthy u" and sacts: "sacts = [SearchCall (query track), Pause 2,
      SearchCall (query track), Pause 2, SearchCall (query track), Pause 2]"
    unfolding sl by simp_all
  from run a u have "out = Skipped"
    and "acts = [Pause (real index * 5), NewPage] @ sacts @ [ClosePage]"
    unfolding process_track_async_def sl by auto
  then show "out = Skipped" and "acts = [Pause (real index * 5), NewPage,
                    SearchCall (query track), Pause 2,
                    SearchCall (query track), Pause 2,
                    SearchCall (query track), Pause 2, ClosePage]"
    by (simp_all add: sacts)
next
  fix url path
  assume a: "new_page_answer ws = Returned () \<and>
            fst (search_loop (search_answer ws) (query track) None [0..<3]) = Some url \<and>
            url \<noteq> [] \<and>
            path = output_path_of app os track \<and>
            (\<forall>i < 2.
               \<not> success (fst (perform_download (client app) os url (Some path)
                                 (download_answer ws i))) \<and>
               blank_answer ws i = Returned ())"
  then have "\<forall>i \<in> set [0..<2].
             \<not> success (fst (perform_download (client app) os url (Some path) (download_answer ws i))) \<and>
             blank_answer ws i = Returned ()"
    by auto
  from download_loop_exhausted [OF this]
  have d: "download_loop (client app) os ws url path [0..<2] =
           (PermanentFailure,
            concat (map (\<lambda>i. DownloadCall url path #
                           snd (perform_download (client app) os url (Some path) (download_answer ws i)) @
                           [Goto ''about:blank'', Pause 2]) [0..<2]),
            client app)" .
  obtain sacts where sl:
    "search_loop (search_answer ws) (query track) None [0..<3] = (Some url, sacts)"
    using a by (cases "search_loop (search_answer ws) (query track) None [0..<3]") auto
  from search_loop_trace [of "search_answer ws" "query track" None "[0..<3]"]
  have sd: "filter is_download sacts = []" by (simp add: sl)
  have p: "path = output_path_of app os track" using a by simp
  have d2: "download_loop (client app) os ws url path [0..<2] =
           (PermanentFailure,
            (DownloadCall url path #
             snd (perform_download (client app) os url (Some path) (download_answer ws 0)) @
             [Goto ''about:blank'', Pause 2]) @
            (DownloadCall url path #
             snd (perform_download (client app) os url (Some path) (download_answer ws 1)) @
             [Goto ''about:blank'', Pause 2]),
            client app)"
    unfolding d by (simp add: upt_0_2)
  from run a have o: "out = PermanentFailure"
    and ac: "acts = [Pause (real index * 5), NewPage] @ sacts @
            ((DownloadCall url path #
             snd (perform_download (client app) os url (Some path) (download_answer ws 0)) @
             [Goto ''about:blank'', Pause 2]) @
            (DownloadCall url path #
             snd (perform_download (client app) os url (Some path) (download_answer ws 1)) @
             [Goto ''about:blank'', Pause 2])) @ [ClosePage]"
    unfolding process_track_async_def sl Let_def p [symmetric] by (auto simp: d2)
  show "out = PermanentFailure" by (rule o)
  show "length (filter is_download acts) = 2"
    by (simp add: ac sd perform_download_plain)
  show "acts = [Pause (real index * 5), NewPage] @
                   snd (search_loop (search_answer ws) (query track) None [0..<3]) @
                   (DownloadCall url path #
                    snd (perform_download (client app) os url (Some path) (download_answer ws 0)) @
                    [Goto ''about:blank'', Pause 2]) @
                   (DownloadCall url path #
                    snd (perform_download (client app) os url (Some path) (download_answer ws 1)) @
                    [Goto ''about:blank'', Pause 2]) @
                   [ClosePage]"
    unfolding ac sl by simp
qed

lemma default_init: "RateLimiter_init no_args = Inr default_limiter"
  by (simp add: RateLimiter_init_def no_args_def or_default_def default_limiter_def)

lemma contains_track_url: "contains ''trackAsin='' track_url"
  by (simp add: track_url_def)

lemma not_contains_blank: "\<not> contains ''trackAsin='' ''about:blank''"
  by simp

lemma found_search_result: "get_direct_amazon_link_async found_search = Some track_url"
  by (simp add: get_direct_amazon_link_async_def found_search_def contains_track_url)

lemma failed_search_result: "get_direct_amazon_link_async failed_search = None"
  by (simp add: get_direct_amazon_link_async_def failed_search_def)

lemma track_url_truthy: "track_url \<noteq> []"
  by (simp add: track_url_def)

lemma example_output_path:
  "output_path_of example_app plain_os example_track = ''flac/Jake Cornell - Back To You.flac''"
  by (simp add: output_path_of_def example_app_def plain_os_def example_track_def
      sanitize_filename_def strip_def is_space_def forbidden_chars_def)

lemma poll_first:
  "ans 0 = ButtonVisible \<Longrightarrow> poll_loop ans [0..<150] = (Inr True, [Poll 0])"
proof -
  assume a: "ans 0 = ButtonVisible"
  have "[0..<150] = 0 # [Suc 0..<150]" by (rule upt_conv_Cons) simp
  then show ?thesis by (simp only: poll_loop.simps a poll.case)
qed

lemma working_download:
  "perform_download default_client plain_os url (Some path) working_page =
     (if path = [] then
        (Success ''flac/track.flac'' 1000,
         [Makedirs ''flac'', Goto (''https://lucida.to?url='' @ url), Poll 0, WaitForSelector,
          Pause 0.3, ClickDownload, Makedirs ''flac'', SaveAs ''flac/track.flac''])
      else
        (Success path 1000,
         [Makedirs ''flac'', Goto (''https://lucida.to?url='' @ url), Poll 0, WaitForSelector,
          Pause 0.3, ClickDownload, Makedirs ''flac'', SaveAs path]))"
  by (simp add: perform_download_def click_and_save_def save_download_def after_def
      working_page_def default_client_def plain_os_def or_default_def poll_first Let_def)

lemma stuck_download:
  "perform_download default_client plain_os url (Some path) stuck_page =
     (Failure ''Timeout 90000ms exceeded'',
      [Makedirs ''flac'', Goto (''https://lucida.to?url='' @ url)])"
  by (simp add: perform_download_def after_def stuck_page_def
      working_page_def default_client_def plain_os_def or_default_def Let_def)

theorem worker_retry_policy_witness:
  "process_track_async example_app plain_os
      \<lparr>new_page_answer = Returned (), search_answer = (\<lambda>i. failed_search),
       download_answer = (\<lambda>i. working_page), blank_answer = (\<lambda>i. Returned ())\<rparr>
      example_track 1
     = (Skipped,
        [Pause 5, NewPage, SearchCall ''Jake Cornell Back To You'', Pause 2,
         SearchCall ''Jake Cornell Back To You'', Pause 2,
         SearchCall ''Jake Cornell Back To You'', Pause 2, ClosePage],
        example_app) \<and>
   process_track_async example_app plain_os
      \<lparr>new_page_answer = Returned (),
       search_answer = (\<lambda>i. if i = 0 then failed_search else found_search),
       download_answer = (\<lambda>i. stuck_page), blank_answer = (\<lambda>i. Returned ())\<rparr>
      example_track 0
     = (PermanentFailure,
        [Pause 0, NewPage, SearchCall ''Jake Cornell Back To You'', Pause 2,
         SearchCall ''Jake Cornell Back To You'',
         DownloadCall track_url ''flac/Jake Cornell - Back To You.flac'',
         Makedirs ''flac'', Goto (''https://lucida.to?url='' @ track_url),
         Goto ''about:blank'', Pause 2,
         DownloadCall track_url ''flac/Jake Cornell - Back To You.flac'',
         Makedirs ''flac'', Goto (''https://lucida.to?url='' @ track_url),
         Goto ''about:blank'', Pause 2, ClosePage],
        example_app)"
proof
  let ?ws = "\<lparr>new_page_answer = Returned (), search_answer = (\<lambda>i. failed_search),
       download_answer = (\<lambda>i. working_page), blank_answer = (\<lambda>i. Returned ())\<rparr>"
  obtain out acts app' where r:
    "process_track_async example_app plain_os ?ws example_track 1 = (out, acts, app')"
    by (cases "process_track_async example_app plain_os ?ws example_track 1") auto
  have h: "new_page_answer ?ws = Returned () \<and>
      (\<forall>i < 3. \<not> truthy (get_direct_amazon_link_async (search_answer ?ws i)))"
    by (simp add: failed_search_result)
  from worker_retry_policy [OF r] h
  have "app' = example_app" "out = Skipped"
    "acts = [Pause (real (1::nat) * 5), NewPage,
                    SearchCall (query example_track), Pause 2,
                    SearchCall (query example_track), Pause 2,
                    SearchCall (query example_track), Pause 2, ClosePage]"
    by blast+
  then show "process_track_async example_app plain_os ?ws example_track 1
     = (Skipped,
        [Pause 5, NewPage, SearchCall ''Jake Cornell Back To You'', Pause 2,
         SearchCall ''Jake Cornell Back To You'', Pause 2,
         SearchCall ''Jake Cornell Back To You'', Pause 2, ClosePage],
        example_app)"
    unfolding r by (simp add: example_track_def)
next
  let ?ws = "\<lparr>new_page_answer = Returned (),
       search_answer = (\<lambda>i. if i = 0 then failed_search else found_search),
       download_answer = (\<lambda>i. stuck_page), blank_answer = (\<lambda>i. Returned ())\<rparr>"
  let ?path = "''flac/Jake Cornell - Back To You.flac''"
  obtain out acts app' where r:
    "process_track_async example_app plain_os ?ws example_track 0 = (out, acts, app')"
    by (cases "process_track_async example_app plain_os ?ws example_track 0") auto
  have sl: "search_loop (search_answer ?ws) (query example_track) None [0..<3]
      = (Some track_url, [SearchCall ''Jake Cornell Back To You'', Pause 2,
           SearchCall ''Jake Cornell Back To You''])"
    by (simp add: upt_0_3 failed_search_result found_search_result track_url_truthy
        after_def example_track_def)
  have c: "client example_app = default_client" by (simp add: example_app_def)
  have h: "new_page_answer ?ws = Returned () \<and>
            fst (search_loop (search_answer ?ws) (query example_track) None [0..<3])
              = Some track_url \<and>
            track_url \<noteq> [] \<and>
            ?path = output_path_of example_app plain_os example_track \<and>
            (\<forall>i < 2.
               \<not> success (fst (perform_download (client example_app) plain_os track_url
                                 (Some ?path) (download_answer ?ws i))) \<and>
               blank_answer ?ws i = Returned ())"
    unfolding sl c by (simp add: track_url_truthy example_output_path stuck_download)
  from worker_retry_policy [OF r] h
  have "app' = example_app" "out = PermanentFailure"
    "acts = [Pause (real (0::nat) * 5), NewPage] @
                   snd (search_loop (search_answer ?ws) (query example_track) None [0..<3]) @
                   (DownloadCall track_url ?path #
                    snd (perform_download (client example_app) plain_os track_url (Some ?path)
                          (download_answer ?ws 0)) @
                    [Goto ''about:blank'', Pause 2]) @
                   (DownloadCall track_url ?path #
                    snd (perform_download (client example_app) plain_os track_url (Some ?path)
                          (download_answer ?ws 1)) @
                    [Goto ''about:blank'', Pause 2]) @
                   [ClosePage]"
    by blast+
  then show "process_track_async example_app plain_os ?ws example_track 0
     = (PermanentFailure,
        [Pause 0, NewPage, SearchCall ''Jake Cornell Back To You'', Pause 2,
         SearchCall ''Jake Cornell Back To You'',
         DownloadCall track_url ?path,
         Makedirs ''flac'', Goto (''https://lucida.to?url='' @ track_url),
         Goto ''about:blank'', Pause 2,
         DownloadCall track_url ?path,
         Makedirs ''flac'', Goto (''https://lucida.to?url='' @ track_url),
         Goto ''about:blank'', Pause 2, ClosePage],
        example_app)"
    unfolding r sl c by (simp add: stuck_download)
qed

lemma default_limiter_fields:
  "requests_per_minute default_limiter = 30" "requests_per_hour default_limiter = 500"
  "min_delay default_limiter = 2" "request_times default_limiter = []"
  "last_request_time default_limiter = 0" "consecutive_errors default_limiter = 0"
  "max_backoff default_limiter = 300"
  by (simp_all add: default_limiter_def)

lemma default_client_fields:
  "base_url default_client = ''https://lucida.to''" "timeout default_client = 30"
  "rate_limiter default_client = default_limiter"
  by (simp_all add: default_client_def)

lemma default_first_wait:
  "wait default_limiter 100 (0, 0, 0, 0) =
     Inr (default_limiter\<lparr>request_times := [100], last_request_time := 100\<rparr>, 100, [])"
  by (simp add: default_limiter_def wait_def enforce_min_delay_def window_check_def
      backoff_check_def record_request_def deque_append_def count_newer_def newer_def Let_def)

theorem stats_side_effect_free_witness:
  "run [Acquire (0, 0, 0, 0), Stats, ReportError, Stats] (default_limiter, 100) =
     Inr (default_limiter\<lparr>request_times := [100], last_request_time := 100,
            consecutive_errors := 1\<rparr>, 100) \<and>
   get_stats (default_limiter\<lparr>request_times := [100], last_request_time := 100,
                consecutive_errors := 1\<rparr>) 130 =
     (\<lparr>requests_last_minute = 1, requests_last_hour = 1, stat_consecutive_errors = 1,
       total_requests = 1\<rparr>,
      default_limiter\<lparr>request_times := [100], last_request_time := 100,
        consecutive_errors := 1\<rparr>) \<and>
   run [Acquire (0, 0, 0, 0), ReportError] (default_limiter, 100) =
     Inr (default_limiter\<lparr>request_times := [100], last_request_time := 100,
            consecutive_errors := 1\<rparr>, 100)"
proof -
  let ?g = "default_limiter\<lparr>request_times := [100], last_request_time := 100,
            consecutive_errors := 1\<rparr>"
  let ?evs = "[Acquire (0, 0, 0, 0), Stats, ReportError, Stats]"
  have reach: "run ?evs (default_limiter, 100) = Inr (?g, 100)"
    by (simp add: default_first_wait get_stats_def record_error_def Let_def
        default_limiter_fields)
  have f: "[e \<leftarrow> ?evs. \<not> is_stats e] = [Acquire (0, 0, 0, 0), ReportError]" by simp
  have "count_newer (request_times ?g) (130 - 60) = 1"
    "count_newer (request_times ?g) (130 - 3600) = 1"
    by (simp_all add: count_newer_def newer_def)
  with stats_side_effect_free [OF default_init reach, of 130] reach f
  show ?thesis by (simp add: prod_eq_iff default_limiter_fields)
qed

theorem stats_ordered_witness:
  "requests_last_minute
      (fst (get_stats (default_limiter\<lparr>request_times := [100], last_request_time := 100\<rparr>) 200))
     \<le> requests_last_hour
      (fst (get_stats (default_limiter\<lparr>request_times := [100], last_request_time := 100\<rparr>) 200)) \<and>
   requests_last_hour
      (fst (get_stats (default_limiter\<lparr>request_times := [100], last_request_time := 100\<rparr>) 200))
     \<le> total_requests
      (fst (get_stats (default_limiter\<lparr>request_times := [100], last_request_time := 100\<rparr>) 200)) \<and>
   total_requests
      (fst (get_stats (default_limiter\<lparr>request_times := [100], last_request_time := 100\<rparr>) 200))
     \<le> 500"
proof -
  let ?g = "default_limiter\<lparr>request_times := [100], last_request_time := 100\<rparr>"
  have reach: "run [Acquire (0, 0, 0, 0)] (default_limiter, 100) = Inr (?g, 100)"
    by (simp add: default_first_wait)
  from stats_ordered [OF default_init reach, of 200] show ?thesis
    by (simp add: default_limiter_fields)
qed

theorem constructor_inputs_witness:
  "\<exists>g. RateLimiter_init
          \<lparr>arg_requests_per_minute = Some 10, arg_requests_per_hour = Some 100,
           arg_min_delay = Some (1 / 2), other_keywords = []\<rparr> = Inr g \<and>
        requests_per_minute g = 10 \<and> requests_per_hour g = 100 \<and>
        min_delay g = 1 / 2 \<and> max_backoff g = 300"
proof -
  let ?args = "\<lparr>arg_requests_per_minute = Some 10, arg_requests_per_hour = Some 100,
           arg_min_delay = Some (1 / 2), other_keywords = []\<rparr>"
  have "other_keywords ?args = [] \<and> 0 \<le> or_default (arg_requests_per_hour ?args) 500 \<and>
      or_default (arg_requests_per_hour ?args) 500 < 2 ^ 63"
    by (simp add: or_default_def)
  with constructor_inputs [of ?args] obtain g where g: "RateLimiter_init ?args = Inr g"
    by blast
  with constructor_inputs [of ?args] show ?thesis
    by (auto simp: or_default_def)
qed

text \<open>
  \<open>max_backoff\<close> is not a parameter: supplying it is a \<open>TypeError\<close>. A negative
  \<open>requests_per_hour\<close> and one of \<open>2^63\<close> are refused by the deque.
\<close>

theorem constructor_inputs_counterexample:
  "RateLimiter_init (no_args\<lparr>other_keywords := [(''max_backoff'', 10)]\<rparr>) = Inl TypeError \<and>
   RateLimiter_init (no_args\<lparr>arg_requests_per_hour := Some (- 1)\<rparr>) = Inl ValueError \<and>
   RateLimiter_init (no_args\<lparr>arg_requests_per_hour := Some (2 ^ 63)\<rparr>) = Inl OverflowError"
  by (simp add: RateLimiter_init_def no_args_def or_default_def)

theorem first_acquire_immediate_witness:
  "wait default_limiter 100 (0, 0, 0, 0) =
     Inr (default_limiter\<lparr>request_times := [100], last_request_time := 100\<rparr>, 100, [])"
proof -
  have "min_delay default_limiter \<le> 100" "1 \<le> requests_per_minute default_limiter"
    "1 \<le> requests_per_hour default_limiter"
    by (simp_all add: default_limiter_def)
  from first_acquire_immediate [OF default_init this] show ?thesis .
qed

text \<open>
  With a limit of zero the first call does wait: the window check \<open>0 \<ge> 0\<close> sleeps one
  second. With \<open>requests_per_hour = 0\<close> the log has no room and stays empty.
\<close>

theorem first_acquire_immediate_counterexample:
  "RateLimiter_init (no_args\<lparr>arg_requests_per_minute := Some 0\<rparr>)
     = Inr (default_limiter\<lparr>requests_per_minute := 0\<rparr>) \<and>
   min_delay (default_limiter\<lparr>requests_per_minute := 0\<rparr>) \<le> 100 \<and>
   wait (default_limiter\<lparr>requests_per_minute := 0\<rparr>) 100 (0, 0, 0, 0)
     = Inr (default_limiter\<lparr>requests_per_minute := 0, request_times := [101],
              last_request_time := 101\<rparr>, 101, [1]) \<and>
   RateLimiter_init (no_args\<lparr>arg_requests_per_hour := Some 0\<rparr>)
     = Inr (default_limiter\<lparr>requests_per_hour := 0\<rparr>) \<and>
   wait (default_limiter\<lparr>requests_per_hour := 0\<rparr>) 100 (0, 0, 0, 0)
     = Inr (default_limiter\<lparr>requests_per_hour := 0, request_times := [],
              last_request_time := 101\<rparr>, 101, [1])"
  by (simp add: RateLimiter_init_def no_args_def or_default_def default_limiter_def wait_def
      enforce_min_delay_def window_check_def backoff_check_def sleep_def
      record_request_def deque_append_def count_newer_def newer_def Let_def)

text \<open>
  Claim C2 does not hold of the code. A worker that finds the link, fails one download and
  completes the second navigates to the rate-limited site twice. The application object it
  returns is the one it was given: the limiter's log is still empty and its error counter
  still 0, so no \<open>wait\<close> preceded either request and neither the failure nor the success was
  reported. \<open>rate_limit\<close>, which no method calls, would have recorded the request, and
  \<open>record_error\<close> would have counted the failure.
\<close>

theorem requests_bypass_limiter:
  "process_track_async example_app plain_os
      \<lparr>new_page_answer = Returned (), search_answer = (\<lambda>i. found_search),
       download_answer = (\<lambda>i. if i = 0 then stuck_page else working_page),
       blank_answer = (\<lambda>i. Returned ())\<rparr>
      example_track 0
     = (Completed,
        [Pause 0, NewPage, SearchCall ''Jake Cornell Back To You'',
         DownloadCall track_url ''flac/Jake Cornell - Back To You.flac'',
         Makedirs ''flac'', Goto (''https://lucida.to?url='' @ track_url),
         Goto ''about:blank'', Pause 2,
         DownloadCall track_url ''flac/Jake Cornell - Back To You.flac'',
         Makedirs ''flac'', Goto (''https://lucida.to?url='' @ track_url), Poll 0,
         WaitForSelector, Pause 0.3, ClickDownload, Makedirs ''flac'',
         SaveAs ''flac/Jake Cornell - Back To You.flac'', ClosePage],
        example_app) \<and>
   rate_limiter (client example_app) = default_limiter \<and>
   request_times default_limiter = [] \<and>
   consecutive_errors default_limiter = 0 \<and>
   rate_limit default_client 100 (0, 0, 0, 0)
     = Inr (default_client\<lparr>rate_limiter :=
              default_limiter\<lparr>request_times := [100], last_request_time := 100\<rparr>\<rparr>,
            100, []) \<and>
   consecutive_errors (record_error default_limiter) = 1"
proof -
  have c: "client example_app = default_client" by (simp add: example_app_def)
  show ?thesis
    unfolding process_track_async_def Let_def example_output_path c
    by (simp add: upt_0_3 upt_0_2 found_search_result track_url_truthy download_track_given
        stuck_download working_download example_track_def rate_limit_def default_first_wait
        default_client_fields default_limiter_fields record_error_def example_app_def)
qed

end
